theory Spec2Isabelle
  imports Main "HOL-Library.Word"
begin

unbundle bit_operations_syntax

section \<open>The Modbus client codec of qmodbusclient.cpp\<close>

text \<open>
  The development embeds the request builders, the per-function response decoders, the
  function-code dispatch and the completion step of \<^verbatim>\<open>src/serialbus/qmodbusclient.cpp\<close>.
  The classes the file uses but does not define (the PDU, the data unit, the reply) are
  modelled next, each from the description of the specification.
\<close>

subsection \<open>Machine integers and faults\<close>

type_synonym quint8 = "8 word"
type_synonym quint16 = "16 word"

text \<open>
  A read outside a byte array is a value of the model: every access to the payload goes
  through a checked read, and a decoder that would read out of range returns
  \<open>Inl OutOfRange\<close> instead of a result.
\<close>

datatype fault = OutOfRange

definition byte_at :: "quint8 list \<Rightarrow> nat \<Rightarrow> fault + quint8" where
  "byte_at bs i = (if i < length bs then Inr (bs ! i) else Inl OutOfRange)"

subsection \<open>Function codes\<close>

text \<open>
  Modelled from the spec: the enumeration \<^verbatim>\<open>QModbusPdu::FunctionCode\<close> is declared in
  qmodbuspdu.h, which is not among the sources. A function code is one byte; the values
  are those the Modbus application protocol assigns to the names the dispatch uses.
\<close>

definition InvalidFunctionCode :: quint8 where "InvalidFunctionCode = 0x00"
definition ReadCoils :: quint8 where "ReadCoils = 0x01"
definition ReadDiscreteInputs :: quint8 where "ReadDiscreteInputs = 0x02"
definition ReadHoldingRegisters :: quint8 where "ReadHoldingRegisters = 0x03"
definition ReadInputRegisters :: quint8 where "ReadInputRegisters = 0x04"
definition WriteSingleCoil :: quint8 where "WriteSingleCoil = 0x05"
definition WriteSingleRegister :: quint8 where "WriteSingleRegister = 0x06"
definition ReadExceptionStatus :: quint8 where "ReadExceptionStatus = 0x07"
definition Diagnostics :: quint8 where "Diagnostics = 0x08"
definition GetCommEventCounter :: quint8 where "GetCommEventCounter = 0x0B"
definition GetCommEventLog :: quint8 where "GetCommEventLog = 0x0C"
definition WriteMultipleCoils :: quint8 where "WriteMultipleCoils = 0x0F"
definition WriteMultipleRegisters :: quint8 where "WriteMultipleRegisters = 0x10"
definition ReportServerId :: quint8 where "ReportServerId = 0x11"
definition ReadFileRecord :: quint8 where "ReadFileRecord = 0x14"
definition WriteFileRecord :: quint8 where "WriteFileRecord = 0x15"
definition MaskWriteRegister :: quint8 where "MaskWriteRegister = 0x16"
definition ReadWriteMultipleRegisters :: quint8 where "ReadWriteMultipleRegisters = 0x17"
definition ReadFifoQueue :: quint8 where "ReadFifoQueue = 0x18"
definition EncapsulatedInterfaceTransport :: quint8 where "EncapsulatedInterfaceTransport = 0x2B"

subsection \<open>Protocol data units\<close>

text \<open>
  Modelled from the spec: \<^verbatim>\<open>QModbusPdu\<close>, \<^verbatim>\<open>QModbusRequest\<close> and \<^verbatim>\<open>QModbusResponse\<close> are
  declared in qmodbuspdu.h, which is not among the sources. A PDU is a function code plus
  a payload byte sequence; \<open>dataSize\<close> is the payload length; a response is an exception
  when the top bit of its function code is set.
\<close>

record QModbusPdu =
  functionCode :: quint8
  data :: "quint8 list"

type_synonym QModbusRequest = QModbusPdu
type_synonym QModbusResponse = QModbusPdu

definition dataSize :: "QModbusPdu \<Rightarrow> int" where
  "dataSize pdu = int (length (data pdu))"

definition isException :: "QModbusPdu \<Rightarrow> bool" where
  "isException pdu = (functionCode pdu AND 0x80 \<noteq> 0)"

text \<open>
  Modelled from the spec: the default-constructed \<^verbatim>\<open>QModbusRequest()\<close>, the invalid/empty
  PDU the builders return when they refuse a data unit: no function code and no payload.
\<close>

definition QModbusRequest_empty :: QModbusRequest where
  "QModbusRequest_empty = \<lparr>functionCode = InvalidFunctionCode, data = []\<rparr>"

text \<open>
  Modelled from the spec: the encoding constructor \<^verbatim>\<open>QModbusRequest(code, fields...)\<close> of
  qmodbuspdu.h. The payload is the concatenation of the fields in order; 16-bit fields are
  big-endian, 8-bit fields are one byte, a vector is its elements in order.
\<close>

definition encode16 :: "quint16 \<Rightarrow> quint8 list" where
  "encode16 w = [ucast (drop_bit 8 w), ucast w]"

definition QModbusRequest :: "quint8 \<Rightarrow> quint8 list \<Rightarrow> QModbusRequest" where
  "QModbusRequest code payload = \<lparr>functionCode = code, data = payload\<rparr>"

text \<open>
  Modelled from the spec: \<^verbatim>\<open>QModbusResponse::minimumDataSize\<close> is defined in qmodbuspdu.cpp,
  which is not among the sources; the specification calls it a per-function-code constant
  defined by the protocol. An exception carries one exception-code byte. The values for the
  nine decoded functions are the shortest payloads of their response layouts: a byte count
  and one packed byte (read coils, read discrete inputs), a byte count and one register
  (the three register reads), two 16-bit fields (the four write acknowledgements). No
  decoder consults the table for another code; such codes have no minimum here (-1).
\<close>

definition minimumDataSize :: "QModbusPdu \<Rightarrow> int" where
  "minimumDataSize pdu =
     (let fc = functionCode pdu in
      if isException pdu then 1
      else if fc = ReadCoils \<or> fc = ReadDiscreteInputs then 2
      else if fc = ReadHoldingRegisters \<or> fc = ReadInputRegisters then 3
      else if fc = WriteSingleCoil \<or> fc = WriteSingleRegister then 4
      else if fc = WriteMultipleCoils \<or> fc = WriteMultipleRegisters then 4
      else if fc = ReadWriteMultipleRegisters then 3
      else - 1)"

text \<open>
  Modelled from the spec: \<^verbatim>\<open>QModbusPdu::decodeData(&a, &b)\<close> of qmodbuspdu.h reads two
  big-endian 16-bit fields from the front of the payload. A read past the end of the
  payload is a fault of the model.
\<close>

definition decode16 :: "quint8 list \<Rightarrow> nat \<Rightarrow> fault + quint16" where
  "decode16 bs i =
     (case byte_at bs i of
        Inl e \<Rightarrow> Inl e
      | Inr hi \<Rightarrow>
          (case byte_at bs (i + 1) of
             Inl e \<Rightarrow> Inl e
           | Inr lo \<Rightarrow> Inr (word_cat hi lo)))"

definition decodeData :: "QModbusPdu \<Rightarrow> fault + quint16 \<times> quint16" where
  "decodeData pdu =
     (case decode16 (data pdu) 0 of
        Inl e \<Rightarrow> Inl e
      | Inr a \<Rightarrow>
          (case decode16 (data pdu) 2 of
             Inl e \<Rightarrow> Inl e
           | Inr b \<Rightarrow> Inr (a, b)))"

text \<open>
  Modelled from the spec: an instance of the structural validity check
  \<^verbatim>\<open>QModbusPdu::isValid\<close> (qmodbuspdu.h, not among the sources): the function code is
  non-zero and the payload fits a PDU (at most 252 bytes). The decoders below take the
  structural check as a parameter, so every general theorem holds for any such check; this
  instance serves the concrete evaluations.
\<close>

definition pdu_isValid :: "QModbusPdu \<Rightarrow> bool" where
  "pdu_isValid pdu = (functionCode pdu \<noteq> InvalidFunctionCode \<and> length (data pdu) \<le> 252)"

subsection \<open>Data units\<close>

text \<open>
  Modelled from the spec: \<^verbatim>\<open>QModbusDataUnit\<close> is declared in qmodbusdataunit.h, which is not
  among the sources. A data unit has a kind, an unsigned 16-bit start address, an unsigned
  count of elements and an ordered sequence of unsigned 16-bit values. Each setter stores
  its argument; \<open>setValues\<close> stores the sequence and, keeping the count equal to the
  length of the values, its length as the count. \<open>value\<close> reads one element, 0 outside
  the sequence. The count is a natural number: the model puts no upper bound on it.
\<close>

datatype RegisterType = Invalid | DiscreteInputs | Coils | InputRegisters | HoldingRegisters

record QModbusDataUnit =
  registerType :: RegisterType
  startAddress :: quint16
  valueCount :: nat
  "values" :: "quint16 list"

definition setRegisterType :: "RegisterType \<Rightarrow> QModbusDataUnit \<Rightarrow> QModbusDataUnit" where
  "setRegisterType t d = d\<lparr>registerType := t\<rparr>"

definition setStartAddress :: "quint16 \<Rightarrow> QModbusDataUnit \<Rightarrow> QModbusDataUnit" where
  "setStartAddress a d = d\<lparr>startAddress := a\<rparr>"

definition setValueCount :: "nat \<Rightarrow> QModbusDataUnit \<Rightarrow> QModbusDataUnit" where
  "setValueCount n d = d\<lparr>valueCount := n\<rparr>"

definition setValues :: "quint16 list \<Rightarrow> QModbusDataUnit \<Rightarrow> QModbusDataUnit" where
  "setValues vs d = d\<lparr>values := vs, valueCount := length vs\<rparr>"

definition "value" :: "QModbusDataUnit \<Rightarrow> nat \<Rightarrow> quint16" where
  "value d i = (if i < length (values d) then values d ! i else 0)"

text \<open>
  Modelled from the spec: the coil constants of qmodbus_symbols_p.h (not among the
  sources): \<open>0xFF00\<close> for on, \<open>0x0000\<close> for off.
\<close>

definition Coil_Off :: quint16 where "Coil_Off = 0x0000"
definition Coil_On :: quint16 where "Coil_On = 0xFF00"

subsection \<open>Request builders\<close>

text \<open>
  \<^verbatim>\<open>createWriteRequest\<close>, the inner loop of the coil packing: the eight bits of one byte
  are taken from \<open>value d address\<close>, the 8-bit counter \<open>address\<close> going up by one
  at each bit (and wrapping at 256, as a \<^verbatim>\<open>quint8\<close> does). A bit is set when the value is
  not zero.
\<close>

function packBits :: "QModbusDataUnit \<Rightarrow> nat \<Rightarrow> quint8 \<Rightarrow> quint8 \<Rightarrow> quint8 \<times> quint8" where
  "packBits d currentBit address byte =
     (if currentBit < 8
      then packBits d (currentBit + 1) (address + 1)
             (if value d (unat address) \<noteq> 0 then set_bit currentBit byte
              else unset_bit currentBit byte)
      else (address, byte))"
  by pat_completeness auto
termination
  by (relation "measure (\<lambda>(d, currentBit, address, byte). 8 - currentBit)") auto

text \<open>The outer loop: \<^verbatim>\<open>for (quint8 i = 0; i < byteCount; ++i)\<close>, appending one byte each turn.\<close>

function packBytes ::
  "QModbusDataUnit \<Rightarrow> quint8 \<Rightarrow> quint8 \<Rightarrow> quint8 \<Rightarrow> quint8 list \<Rightarrow> quint8 list" where
  "packBytes d byteCount i address bytes =
     (if i < byteCount
      then (case packBits d 0 address 0 of
              (address', byte) \<Rightarrow> packBytes d byteCount (i + 1) address' (bytes @ [byte]))
      else bytes)"
  by pat_completeness auto
termination
proof (relation "measure (\<lambda>(d, byteCount, i, address, bytes). unat byteCount - unat i)")
  show "wf (measure (\<lambda>(d, byteCount, i, address, bytes). unat byteCount - unat i))"
    by simp
next
  fix d :: QModbusDataUnit and byteCount i address :: quint8 and bytes :: "quint8 list"
    and x :: "quint8 \<times> quint8" and address' byte :: quint8
  assume "i < byteCount"
  then have less: "unat i < unat byteCount"
    by (simp add: word_less_nat_alt)
  moreover have "unat byteCount < 256"
    using unsigned_less [of byteCount, where 'a = nat] by simp
  ultimately have "unat i + 1 < 256"
    by simp
  then have "unat (i + 1) = Suc (unat i)"
    by (simp add: unat_word_ariths)
  with less show "((d, byteCount, i + 1, address', bytes @ [byte]), (d, byteCount, i, address, bytes))
      \<in> measure (\<lambda>(d, byteCount, i, address, bytes). unat byteCount - unat i)"
    by simp
qed

definition createWriteRequest :: "QModbusDataUnit \<Rightarrow> QModbusRequest" where
  "createWriteRequest d =
     (case registerType d of
        Coils \<Rightarrow>
          if valueCount d = 1
          then QModbusRequest WriteSingleCoil
                 (encode16 (startAddress d) @ encode16 (if value d 0 = 0 then Coil_Off else Coil_On))
          else
            let byteCount0 = (of_nat (valueCount d div 8) :: quint8);
                byteCount = (if valueCount d mod 8 \<noteq> 0 then byteCount0 + 1 else byteCount0);
                bytes = packBytes d byteCount 0 0 []
            in QModbusRequest WriteMultipleCoils
                 (encode16 (startAddress d) @ encode16 (of_nat (valueCount d)) @ [byteCount] @ bytes)
      | HoldingRegisters \<Rightarrow>
          if valueCount d = 1
          then QModbusRequest WriteSingleRegister (encode16 (startAddress d) @ encode16 (value d 0))
          else
            let byteCount = (of_nat (valueCount d * 2) :: quint8)
            in QModbusRequest WriteMultipleRegisters
                 (encode16 (startAddress d) @ encode16 (of_nat (valueCount d)) @ [byteCount]
                  @ concat (map encode16 (values d)))
      | DiscreteInputs \<Rightarrow> QModbusRequest_empty
      | InputRegisters \<Rightarrow> QModbusRequest_empty
      | Invalid \<Rightarrow> QModbusRequest_empty)"

definition createRWRequest :: "QModbusDataUnit \<Rightarrow> QModbusDataUnit \<Rightarrow> QModbusRequest" where
  "createRWRequest read write =
     (if registerType read \<noteq> HoldingRegisters \<and> registerType write \<noteq> HoldingRegisters
      then QModbusRequest_empty
      else
        let byteCount = (of_nat (valueCount write * 2) :: quint8)
        in QModbusRequest ReadWriteMultipleRegisters
             (encode16 (startAddress read) @ encode16 (of_nat (valueCount read))
              @ encode16 (startAddress write) @ encode16 (of_nat (valueCount write))
              @ [byteCount] @ concat (map encode16 (values write))))"

subsection \<open>Response validation\<close>

text \<open>
  The static \<^verbatim>\<open>isValid(response, fc)\<close>. Its first test is the PDU's own structural check,
  the parameter \<open>pduValid\<close>.
\<close>

definition isValid :: "(QModbusPdu \<Rightarrow> bool) \<Rightarrow> QModbusResponse \<Rightarrow> quint8 \<Rightarrow> bool" where
  "isValid pduValid response fc =
     (if \<not> pduValid response then False
      else if isException response then False
      else if functionCode response \<noteq> fc then False
      else True)"

subsection \<open>Decoders\<close>

text \<open>
  A decoder takes the response and the out-parameter (\<open>None\<close> for a null pointer) and
  returns its boolean together with the out-parameter after the call, or a fault.
\<close>

type_synonym decoded = "fault + bool \<times> QModbusDataUnit option"

type_synonym decoder = "QModbusResponse \<Rightarrow> QModbusDataUnit option \<Rightarrow> decoded"

text \<open>
  The bit loop of the two coil decoders: bit \<open>currentBit\<close> of the byte goes to
  \<open>vs[coil]\<close> while \<open>currentBit < 8\<close> and \<open>coil < count\<close>. The vector was
  allocated with \<open>count\<close> zero elements, so the guard keeps the write inside it.
  (The allocation is modelled for every count; that the vector's constructor takes the
  unsigned count as a signed size is not.)
\<close>

function unpackBits ::
  "quint8 \<Rightarrow> nat \<Rightarrow> nat \<Rightarrow> nat \<Rightarrow> quint16 list \<Rightarrow> nat \<times> quint16 list" where
  "unpackBits byte currentBit coil count vs =
     (if currentBit < 8 \<and> coil < count
      then unpackBits byte (currentBit + 1) (coil + 1) count
             (vs[coil := (if bit byte currentBit then 1 else 0)])
      else (coil, vs))"
  by pat_completeness auto
termination
  by (relation "measure (\<lambda>(byte, currentBit, coil, count, vs). 8 - currentBit)") auto

text \<open>The byte loop: \<^verbatim>\<open>for (qint32 i = 1; i < payload.size(); ++i)\<close>.\<close>

function unpackBytes ::
  "quint8 list \<Rightarrow> nat \<Rightarrow> nat \<Rightarrow> nat \<Rightarrow> quint16 list \<Rightarrow> fault + quint16 list" where
  "unpackBytes payload i coil count vs =
     (if i < length payload
      then (case byte_at payload i of
              Inl e \<Rightarrow> Inl e
            | Inr byte \<Rightarrow>
                (case unpackBits byte 0 coil count vs of
                   (coil', vs') \<Rightarrow> unpackBytes payload (i + 1) coil' count vs'))
      else Inr vs)"
  by pat_completeness auto
termination
  by (relation "measure (\<lambda>(payload, i, coil, count, vs). length payload - i)") auto

definition processReadCoilsResponse :: "(QModbusPdu \<Rightarrow> bool) \<Rightarrow> decoder" where
  "processReadCoilsResponse pduValid response du =
     (if \<not> isValid pduValid response ReadCoils then Inr (False, du)
      else if dataSize response < minimumDataSize response then Inr (False, du)
      else
        let payload = data response in
        case byte_at payload 0 of
          Inl e \<Rightarrow> Inl e
        | Inr byteCount \<Rightarrow>
            if int (length payload) - 1 \<noteq> uint byteCount then Inr (False, du)
            else
              (case du of
                 None \<Rightarrow> Inr (True, None)
               | Some d \<Rightarrow>
                   (case unpackBytes payload 1 0 (valueCount d) (replicate (valueCount d) 0) of
                      Inl e \<Rightarrow> Inl e
                    | Inr vs \<Rightarrow> Inr (True, Some (setValues vs d)))))"

definition processReadDiscreteInputsResponse :: "(QModbusPdu \<Rightarrow> bool) \<Rightarrow> decoder" where
  "processReadDiscreteInputsResponse pduValid response du =
     (if \<not> isValid pduValid response ReadDiscreteInputs then Inr (False, du)
      else if dataSize response < minimumDataSize response then Inr (False, du)
      else
        let payload = data response in
        case byte_at payload 0 of
          Inl e \<Rightarrow> Inl e
        | Inr byteCount \<Rightarrow>
            if int (length payload) - 1 \<noteq> uint byteCount then Inr (False, du)
            else
              (case du of
                 None \<Rightarrow> Inr (True, None)
               | Some d \<Rightarrow>
                   (case unpackBytes payload 1 0 (valueCount d) (replicate (valueCount d) 0) of
                      Inl e \<Rightarrow> Inl e
                    | Inr vs \<Rightarrow> Inr (True, Some (setValues vs d)))))"

text \<open>
  The register loop of the three register decoders: \<open>itemCount\<close> big-endian 16-bit
  values are read in order from the payload without its byte-count header, each appended
  to the vector.
\<close>

function readRegisters ::
  "quint8 list \<Rightarrow> nat \<Rightarrow> nat \<Rightarrow> quint16 list \<Rightarrow> fault + quint16 list" where
  "readRegisters pduData i itemCount vs =
     (if i < itemCount
      then (case decode16 pduData (2 * i) of
              Inl e \<Rightarrow> Inl e
            | Inr tmp \<Rightarrow> readRegisters pduData (i + 1) itemCount (vs @ [tmp]))
      else Inr vs)"
  by pat_completeness auto
termination
  by (relation "measure (\<lambda>(pduData, i, itemCount, vs). itemCount - i)") auto

definition processReadHoldingRegistersResponse :: "(QModbusPdu \<Rightarrow> bool) \<Rightarrow> decoder" where
  "processReadHoldingRegistersResponse pduValid response du =
     (if \<not> isValid pduValid response ReadHoldingRegisters then Inr (False, du)
      else if dataSize response < minimumDataSize response then Inr (False, du)
      else
        case byte_at (data response) 0 of
          Inl e \<Rightarrow> Inl e
        | Inr byteCount \<Rightarrow>
            if dataSize response - 1 \<noteq> uint byteCount then Inr (False, du)
            else if byteCount mod 2 \<noteq> 0 then Inr (False, du)
            else
              let itemCount = byteCount div 2;
                  pduData = drop 1 (data response)
              in
                (case readRegisters pduData 0 (unat itemCount) [] of
                   Inl e \<Rightarrow> Inl e
                 | Inr vs \<Rightarrow>
                     (case du of
                        None \<Rightarrow> Inr (True, None)
                      | Some d \<Rightarrow>
                          Inr (True,
                            Some (setRegisterType HoldingRegisters
                                   (setValueCount (length vs) (setValues vs d)))))))"

definition processReadInputRegistersResponse :: "(QModbusPdu \<Rightarrow> bool) \<Rightarrow> decoder" where
  "processReadInputRegistersResponse pduValid response du =
     (if \<not> isValid pduValid response ReadInputRegisters then Inr (False, du)
      else if dataSize response < minimumDataSize response then Inr (False, du)
      else
        case byte_at (data response) 0 of
          Inl e \<Rightarrow> Inl e
        | Inr byteCount \<Rightarrow>
            if dataSize response - 1 \<noteq> uint byteCount then Inr (False, du)
            else if byteCount mod 2 \<noteq> 0 then Inr (False, du)
            else
              let itemCount = byteCount div 2;
                  pduData = drop 1 (data response)
              in
                (case readRegisters pduData 0 (unat itemCount) [] of
                   Inl e \<Rightarrow> Inl e
                 | Inr vs \<Rightarrow>
                     (case du of
                        None \<Rightarrow> Inr (True, None)
                      | Some d \<Rightarrow>
                          Inr (True,
                            Some (setRegisterType InputRegisters
                                   (setValueCount (length vs) (setValues vs d)))))))"

definition processWriteSingleCoilResponse :: "(QModbusPdu \<Rightarrow> bool) \<Rightarrow> decoder" where
  "processWriteSingleCoilResponse pduValid response du =
     (if \<not> isValid pduValid response WriteSingleCoil then Inr (False, du)
      else if dataSize response \<noteq> minimumDataSize response then Inr (False, du)
      else
        case decodeData response of
          Inl e \<Rightarrow> Inl e
        | Inr (address, v) \<Rightarrow>
            if v \<noteq> Coil_Off \<and> v \<noteq> Coil_On then Inr (False, du)
            else
              (case du of
                 None \<Rightarrow> Inr (True, None)
               | Some d \<Rightarrow>
                   Inr (True,
                     Some (setRegisterType Coils
                            (setValues [v] (setStartAddress address (setValueCount 1 d)))))))"

definition processWriteSingleRegisterResponse :: "(QModbusPdu \<Rightarrow> bool) \<Rightarrow> decoder" where
  "processWriteSingleRegisterResponse pduValid response du =
     (if \<not> isValid pduValid response WriteSingleRegister then Inr (False, du)
      else if dataSize response \<noteq> minimumDataSize response then Inr (False, du)
      else
        case decodeData response of
          Inl e \<Rightarrow> Inl e
        | Inr (address, v) \<Rightarrow>
            (case du of
               None \<Rightarrow> Inr (True, None)
             | Some d \<Rightarrow>
                 Inr (True,
                   Some (setRegisterType HoldingRegisters
                          (setValues [v] (setStartAddress address (setValueCount 1 d)))))))"

definition processWriteMultipleCoilsResponse :: "(QModbusPdu \<Rightarrow> bool) \<Rightarrow> decoder" where
  "processWriteMultipleCoilsResponse pduValid response du =
     (if \<not> isValid pduValid response WriteMultipleCoils then Inr (False, du)
      else if dataSize response \<noteq> minimumDataSize response then Inr (False, du)
      else
        case decodeData response of
          Inl e \<Rightarrow> Inl e
        | Inr (address, count) \<Rightarrow>
            (case du of
               None \<Rightarrow> Inr (True, None)
             | Some d \<Rightarrow>
                 Inr (True,
                   Some (setRegisterType Coils
                          (setStartAddress address (setValueCount (unat count) d))))))"

definition processWriteMultipleRegistersResponse :: "(QModbusPdu \<Rightarrow> bool) \<Rightarrow> decoder" where
  "processWriteMultipleRegistersResponse pduValid response du =
     (if \<not> isValid pduValid response WriteMultipleRegisters then Inr (False, du)
      else if dataSize response \<noteq> minimumDataSize response then Inr (False, du)
      else
        case decodeData response of
          Inl e \<Rightarrow> Inl e
        | Inr (address, count) \<Rightarrow>
            if count < 1 \<or> count > 123 then Inr (False, du)
            else
              (case du of
                 None \<Rightarrow> Inr (True, None)
               | Some d \<Rightarrow>
                   Inr (True,
                     Some (setRegisterType HoldingRegisters
                            (setValueCount (unat count) (setStartAddress address d))))))"

definition processReadWriteMultipleRegistersResponse :: "(QModbusPdu \<Rightarrow> bool) \<Rightarrow> decoder" where
  "processReadWriteMultipleRegistersResponse pduValid response du =
     (if \<not> isValid pduValid response ReadWriteMultipleRegisters then Inr (False, du)
      else if dataSize response < minimumDataSize response then Inr (False, du)
      else
        case byte_at (data response) 0 of
          Inl e \<Rightarrow> Inl e
        | Inr byteCount \<Rightarrow>
            if dataSize response - 1 \<noteq> uint byteCount then Inr (False, du)
            else if byteCount mod 2 \<noteq> 0 then Inr (False, du)
            else
              let itemCount = byteCount div 2;
                  pduData = drop 1 (data response)
              in
                (case readRegisters pduData 0 (unat itemCount) [] of
                   Inl e \<Rightarrow> Inl e
                 | Inr vs \<Rightarrow>
                     (case du of
                        None \<Rightarrow> Inr (True, None)
                      | Some d \<Rightarrow>
                          Inr (True,
                            Some (setRegisterType HoldingRegisters
                                   (setValueCount (length vs) (setValues vs d)))))))"

subsection \<open>Dispatch\<close>

text \<open>
  The extension hook \<^verbatim>\<open>QModbusClient::processPrivateResponse\<close> is virtual: a client
  may override it. The dispatch takes the hook in force as a parameter; the default
  implementation ignores both arguments and returns false.
\<close>

type_synonym hook = "QModbusResponse \<Rightarrow> QModbusDataUnit option \<Rightarrow> bool \<times> QModbusDataUnit option"

definition processPrivateResponse :: hook where
  "processPrivateResponse response du = (False, du)"

text \<open>
  \<^verbatim>\<open>QModbusClientPrivate::processResponse\<close>: the switch on the function code. A case
  label with no statement of its own falls through to the next \<^verbatim>\<open>return\<close>, so the
  labels are grouped here as the switch groups them.
\<close>

definition processResponse :: "(QModbusPdu \<Rightarrow> bool) \<Rightarrow> hook \<Rightarrow> decoder" where
  "processResponse pduValid privateHook response du =
     (let fc = functionCode response in
      if fc = ReadCoils then processReadCoilsResponse pduValid response du
      else if fc = ReadDiscreteInputs then processReadDiscreteInputsResponse pduValid response du
      else if fc = ReadHoldingRegisters then processReadHoldingRegistersResponse pduValid response du
      else if fc = ReadInputRegisters then processReadInputRegistersResponse pduValid response du
      else if fc = WriteSingleCoil then processWriteSingleCoilResponse pduValid response du
      else if fc = WriteSingleRegister then processWriteSingleRegisterResponse pduValid response du
      else if fc = ReadExceptionStatus \<or> fc = Diagnostics \<or> fc = GetCommEventCounter
              \<or> fc = GetCommEventLog \<or> fc = WriteMultipleCoils
        then processWriteMultipleCoilsResponse pduValid response du
      else if fc = WriteMultipleRegisters
        then processWriteMultipleRegistersResponse pduValid response du
      else if fc = ReportServerId \<or> fc = ReadFileRecord \<or> fc = WriteFileRecord
              \<or> fc = MaskWriteRegister \<or> fc = ReadWriteMultipleRegisters
        then processReadWriteMultipleRegistersResponse pduValid response du
      else Inr (privateHook response du))"

subsection \<open>Completion step\<close>

text \<open>
  Modelled from the spec: \<^verbatim>\<open>QModbusReply\<close> is declared in qmodbusreply.h, which is not
  among the sources. The reply sink has a kind (Common or Raw) and the client only calls
  four mutators on it: attach the raw result, set an error (kind and message), set the
  decoded result, mark finished. The state of the sink is the sequence of the calls it has
  received, oldest first.
\<close>

datatype ReplyType = Raw | Common

datatype ReplyError = ProtocolError | UnknownError

datatype ReplyCall =
    SetRawResult QModbusResponse
  | SetError ReplyError string
  | SetResult QModbusDataUnit
  | SetFinished bool

record QModbusReply =
  replyType :: ReplyType
  calls :: "ReplyCall list"

definition setRawResult :: "QModbusResponse \<Rightarrow> QModbusReply \<Rightarrow> QModbusReply" where
  "setRawResult pdu r = r\<lparr>calls := calls r @ [SetRawResult pdu]\<rparr>"

definition setError :: "ReplyError \<Rightarrow> string \<Rightarrow> QModbusReply \<Rightarrow> QModbusReply" where
  "setError k msg r = r\<lparr>calls := calls r @ [SetError k msg]\<rparr>"

definition setResult :: "QModbusDataUnit \<Rightarrow> QModbusReply \<Rightarrow> QModbusReply" where
  "setResult u r = r\<lparr>calls := calls r @ [SetResult u]\<rparr>"

definition setFinished :: "bool \<Rightarrow> QModbusReply \<Rightarrow> QModbusReply" where
  "setFinished b r = r\<lparr>calls := calls r @ [SetFinished b]\<rparr>"

text \<open>
  Modelled from the spec: the queue element (qmodbusclient_p.h, not among the sources)
  correlates the reply sink with the data unit the request was built from.
\<close>

record QueueElement =
  reply :: QModbusReply
  unit :: QModbusDataUnit

text \<open>
  \<^verbatim>\<open>QModbusClientPrivate::processQueueElement\<close>. The function returns nothing; its effect
  is the reply after its calls. The working copy \<open>unit\<close> is passed by address, so the
  decoder's out-parameter is never null here.
\<close>

definition processQueueElement ::
  "(QModbusPdu \<Rightarrow> bool) \<Rightarrow> hook \<Rightarrow> QModbusResponse \<Rightarrow> QueueElement \<Rightarrow> fault + QModbusReply" where
  "processQueueElement pduValid privateHook pdu element =
     (let r = setRawResult pdu (reply element) in
      if isException pdu
      then Inr (setError ProtocolError ''Modbus Exception Response.'' r)
      else if replyType r = Raw
      then Inr (setFinished True r)
      else
        case processResponse pduValid privateHook pdu (Some (unit element)) of
          Inl e \<Rightarrow> Inl e
        | Inr (ok, du) \<Rightarrow>
            if \<not> ok
            then Inr (setError UnknownError ''An invalid response has been received.'' r)
            else
              let u = (case du of None \<Rightarrow> unit element | Some u' \<Rightarrow> u')
              in Inr (setFinished True (setResult u r)))"

subsection \<open>Notions used by the statements\<close>

text \<open>An overriding extension hook that accepts every response and leaves the unit alone.\<close>

definition acceptingHook :: hook where
  "acceptingHook response du = (True, du)"

text \<open>
  The nine built-in decoders, each with the function code it passes to \<^verbatim>\<open>isValid\<close>.
\<close>

definition builtinDecoders :: "(QModbusPdu \<Rightarrow> bool) \<Rightarrow> (quint8 \<times> decoder) list" where
  "builtinDecoders pduValid =
     [(ReadCoils, processReadCoilsResponse pduValid),
      (ReadDiscreteInputs, processReadDiscreteInputsResponse pduValid),
      (ReadHoldingRegisters, processReadHoldingRegistersResponse pduValid),
      (ReadInputRegisters, processReadInputRegistersResponse pduValid),
      (WriteSingleCoil, processWriteSingleCoilResponse pduValid),
      (WriteSingleRegister, processWriteSingleRegisterResponse pduValid),
      (WriteMultipleCoils, processWriteMultipleCoilsResponse pduValid),
      (WriteMultipleRegisters, processWriteMultipleRegistersResponse pduValid),
      (ReadWriteMultipleRegisters, processReadWriteMultipleRegistersResponse pduValid)]"

text \<open>
  The decoders that store a sequence of values in the unit, and the two decoders of
  the write-multiple acknowledgements, which carry an address and a count only.
\<close>

definition valueDecoders :: "(QModbusPdu \<Rightarrow> bool) \<Rightarrow> decoder list" where
  "valueDecoders pduValid =
     [processReadCoilsResponse pduValid,
      processReadDiscreteInputsResponse pduValid,
      processReadHoldingRegistersResponse pduValid,
      processReadInputRegistersResponse pduValid,
      processWriteSingleCoilResponse pduValid,
      processWriteSingleRegisterResponse pduValid,
      processReadWriteMultipleRegistersResponse pduValid]"

definition acknowledgementDecoders :: "(QModbusPdu \<Rightarrow> bool) \<Rightarrow> decoder list" where
  "acknowledgementDecoders pduValid =
     [processWriteMultipleCoilsResponse pduValid,
      processWriteMultipleRegistersResponse pduValid]"

text \<open>
  The coil round trip: the byte count and the packed bytes of the request that
  \<^verbatim>\<open>createWriteRequest\<close> builds (its payload after the address and the count) are
  handed, as the payload of a Read Coils response, to the Read Coils decoder, with the
  unit the request was built from as the out-parameter.
\<close>

definition echoAsReadCoils :: "QModbusRequest \<Rightarrow> QModbusResponse" where
  "echoAsReadCoils request = \<lparr>functionCode = ReadCoils, data = drop 4 (data request)\<rparr>"

definition coilRoundTrip :: "(QModbusPdu \<Rightarrow> bool) \<Rightarrow> QModbusDataUnit \<Rightarrow> decoded" where
  "coilRoundTrip pduValid d =
     processReadCoilsResponse pduValid (echoAsReadCoils (createWriteRequest d)) (Some d)"

section \<open>Properties\<close>

lemmas function_codes =
  InvalidFunctionCode_def ReadCoils_def ReadDiscreteInputs_def ReadHoldingRegisters_def
  ReadInputRegisters_def WriteSingleCoil_def WriteSingleRegister_def ReadExceptionStatus_def
  Diagnostics_def GetCommEventCounter_def GetCommEventLog_def WriteMultipleCoils_def
  WriteMultipleRegisters_def ReportServerId_def ReadFileRecord_def WriteFileRecord_def
  MaskWriteRegister_def ReadWriteMultipleRegisters_def ReadFifoQueue_def
  EncapsulatedInterfaceTransport_def

lemmas pdu_defs =
  isValid_def pdu_isValid_def isException_def dataSize_def minimumDataSize_def
  byte_at_def decode16_def decodeData_def function_codes

lemmas unit_defs =
  setValues_def setValueCount_def setStartAddress_def setRegisterType_def

declare packBits.simps [simp del] packBytes.simps [simp del] unpackBits.simps [simp del]
  unpackBytes.simps [simp del] readRegisters.simps [simp del]

subsection \<open>Checked reads and the loops\<close>

lemma byte_at_in_range: "i < length bs \<Longrightarrow> byte_at bs i = Inr (bs ! i)"
  by (simp add: byte_at_def)

lemma decode16_in_range:
  "i + 1 < length bs \<Longrightarrow> decode16 bs i = Inr (word_cat (bs ! i) (bs ! (i + 1)))"
  by (simp add: decode16_def byte_at_def)

lemma decodeData_four:
  "length (data pdu) = 4 \<Longrightarrow>
   decodeData pdu = Inr (word_cat (data pdu ! 0) (data pdu ! 1), word_cat (data pdu ! 2) (data pdu ! 3))"
  by (simp add: decodeData_def decode16_in_range)

lemma unpackBits_length:
  "length (snd (unpackBits byte currentBit coil count vs)) = length vs"
proof (induction byte currentBit coil count vs rule: unpackBits.induct)
  case (1 byte currentBit coil count vs)
  show ?case
  proof (cases "currentBit < 8 \<and> coil < count")
    case True
    then have "unpackBits byte currentBit coil count vs =
        unpackBits byte (currentBit + 1) (coil + 1) count
          (vs[coil := (if bit byte currentBit then 1 else 0)])"
      by (subst unpackBits.simps) simp
    moreover have "length (snd (unpackBits byte (currentBit + 1) (coil + 1) count
          (vs[coil := (if bit byte currentBit then 1 else 0)]))) =
        length (vs[coil := (if bit byte currentBit then 1 else (0::quint16))])"
      using True by (intro "1.IH") simp_all
    ultimately show ?thesis
      by (simp only: length_list_update)
  next
    case False
    then show ?thesis
      by (subst unpackBits.simps) auto
  qed
qed

lemma unpackBytes_returns:
  "\<exists>vs'. unpackBytes payload i coil count vs = Inr vs' \<and> length vs' = length vs"
proof (induction payload i coil count vs rule: unpackBytes.induct)
  case (1 payload i coil count vs)
  show ?case
  proof (cases "i < length payload")
    case True
    obtain coil' vs' where step: "unpackBits (payload ! i) 0 coil count vs = (coil', vs')"
      by (cases "unpackBits (payload ! i) 0 coil count vs")
    have len: "length vs' = length vs"
      using unpackBits_length [of "payload ! i" 0 coil count vs] step by simp
    from True have at: "byte_at payload i = Inr (payload ! i)"
      by (rule byte_at_in_range)
    from "1.IH" [OF True at step [symmetric]]
    obtain vs'' where "unpackBytes payload (i + 1) coil' count vs' = Inr vs''"
      and "length vs'' = length vs'"
      by blast
    with True at step len show ?thesis
      by (subst unpackBytes.simps) simp
  next
    case False
    then show ?thesis
      by (subst unpackBytes.simps) simp
  qed
qed

lemma readRegisters_returns:
  "2 * itemCount \<le> length pduData \<Longrightarrow>
   \<exists>vs'. readRegisters pduData i itemCount vs = Inr vs' \<and> length vs' = length vs + (itemCount - i)"
proof (induction pduData i itemCount vs rule: readRegisters.induct)
  case (1 pduData i itemCount vs)
  show ?case
  proof (cases "i < itemCount")
    case True
    with "1.prems" have "2 * i + 1 < length pduData"
      by simp
    then have dec: "decode16 pduData (2 * i) = Inr (word_cat (pduData ! (2 * i)) (pduData ! (2 * i + 1)))"
      by (rule decode16_in_range)
    from "1.IH" [OF True dec "1.prems"] True dec show ?thesis
      by (subst readRegisters.simps) auto
  next
    case False
    then show ?thesis
      by (subst readRegisters.simps) simp
  qed
qed

lemma unpackBits_spec:
  assumes "coil \<le> count"
  shows "fst (unpackBits byte currentBit coil count vs) = min count (coil + (8 - currentBit))
   \<and> (\<forall>j < length vs. snd (unpackBits byte currentBit coil count vs) ! j =
          (if coil \<le> j \<and> j < coil + (8 - currentBit) \<and> j < count
           then (if bit byte (currentBit + (j - coil)) then 1 else 0)
           else vs ! j))"
  using assms
proof (induction byte currentBit coil count vs rule: unpackBits.induct)
  case (1 byte currentBit coil count vs)
  show ?case
  proof (cases "currentBit < 8 \<and> coil < count")
    case True
    let ?vs = "vs[coil := (if bit byte currentBit then 1 else 0)]"
    from True have step: "unpackBits byte currentBit coil count vs =
        unpackBits byte (currentBit + 1) (coil + 1) count ?vs"
      by (subst unpackBits.simps) simp
    from True have le: "coil + 1 \<le> count"
      by simp
    from True have eq: "coil + 1 + (8 - (currentBit + 1)) = coil + (8 - currentBit)"
      by linarith
    from "1.IH" [OF True le] have
      first: "fst (unpackBits byte (currentBit + 1) (coil + 1) count ?vs)
                = min count (coil + (8 - currentBit))"
      and rest: "\<And>j. j < length vs \<Longrightarrow>
          snd (unpackBits byte (currentBit + 1) (coil + 1) count ?vs) ! j =
          (if coil + 1 \<le> j \<and> j < coil + (8 - currentBit) \<and> j < count
           then (if bit byte (currentBit + 1 + (j - (coil + 1))) then 1 else 0)
           else ?vs ! j)"
      unfolding eq by simp_all
    show ?thesis
    proof (intro conjI allI impI)
      from first show "fst (unpackBits byte currentBit coil count vs)
          = min count (coil + (8 - currentBit))"
        unfolding step .
    next
      fix j
      assume j: "j < length vs"
      show "snd (unpackBits byte currentBit coil count vs) ! j =
          (if coil \<le> j \<and> j < coil + (8 - currentBit) \<and> j < count
           then (if bit byte (currentBit + (j - coil)) then 1 else 0)
           else vs ! j)"
      proof (cases "coil + 1 \<le> j")
        case above: True
        then have "currentBit + 1 + (j - (coil + 1)) = currentBit + (j - coil)"
          by simp
        with rest [OF j] above show ?thesis
          unfolding step by simp
      next
        case False
        show ?thesis
        proof (cases "j = coil")
          case True
          with rest [OF j] have "snd (unpackBits byte currentBit coil count vs) ! j = ?vs ! j"
            unfolding step by simp
          also from True j have "?vs ! j = (if bit byte currentBit then 1 else 0)"
            by simp
          finally have "snd (unpackBits byte currentBit coil count vs) ! j =
              (if bit byte (currentBit + (j - coil)) then 1 else 0)"
            using True by simp
          moreover from True \<open>currentBit < 8 \<and> coil < count\<close>
          have "coil \<le> j \<and> j < coil + (8 - currentBit) \<and> j < count"
            by linarith
          ultimately show ?thesis
            by (simp only: if_P)
        next
          case False
          with \<open>\<not> coil + 1 \<le> j\<close> have below: "j < coil"
            by simp
          with rest [OF j] have "snd (unpackBits byte currentBit coil count vs) ! j = ?vs ! j"
            unfolding step by simp
          also from below have "?vs ! j = vs ! j"
            by simp
          also from below have "\<dots> =
              (if coil \<le> j \<and> j < coil + (8 - currentBit) \<and> j < count
               then (if bit byte (currentBit + (j - coil)) then 1 else 0)
               else vs ! j)"
            by simp
          finally show ?thesis .
        qed
      qed
    qed
  next
    case False
    then have stop: "unpackBits byte currentBit coil count vs = (coil, vs)"
      by (subst unpackBits.simps) auto
    from False "1.prems" have "min count (coil + (8 - currentBit)) = coil"
      by auto
    moreover from False have "\<not> (coil \<le> j \<and> j < coil + (8 - currentBit) \<and> j < count)" for j
      by auto
    ultimately show ?thesis
      unfolding stop by auto
  qed
qed

lemma unpackBytes_spec:
  assumes "unpackBytes payload i coil count vs = Inr vs'"
    and "coil \<le> count" and "j < length vs"
  shows "vs' ! j =
     (if coil \<le> j \<and> j < coil + 8 * (length payload - i) \<and> j < count
      then (if bit (payload ! (i + (j - coil) div 8)) ((j - coil) mod 8) then 1 else 0)
      else vs ! j)"
  using assms
proof (induction payload i coil count vs rule: unpackBytes.induct)
  case (1 payload i coil count vs)
  show ?case
  proof (cases "i < length payload")
    case True
    obtain coil1 vs1 where step: "unpackBits (payload ! i) 0 coil count vs = (coil1, vs1)"
      by (cases "unpackBits (payload ! i) 0 coil count vs")
    from True have at: "byte_at payload i = Inr (payload ! i)"
      by (rule byte_at_in_range)
    from unpackBits_spec [OF "1.prems"(2), of "payload ! i" 0 vs] step "1.prems"(3)
    have coil1: "coil1 = min count (coil + 8)"
      and vs1: "vs1 ! j =
        (if coil \<le> j \<and> j < coil + 8 \<and> j < count
         then (if bit (payload ! i) (j - coil) then 1 else 0) else vs ! j)"
      by simp_all
    from unpackBits_length [of "payload ! i" 0 coil count vs] step have len: "length vs1 = length vs"
      by simp
    from True at step "1.prems"(1) have rest: "unpackBytes payload (i + 1) coil1 count vs1 = Inr vs'"
      by (subst (asm) unpackBytes.simps) simp
    from coil1 have le: "coil1 \<le> count"
      by simp
    from "1.prems"(3) len have j: "j < length vs1"
      by simp
    note IH = "1.IH" [OF True at step [symmetric] rest le j]
    from True have more: "length payload - i = Suc (length payload - (i + 1))"
      by simp
    show ?thesis
    proof (cases "coil \<le> j \<and> j < coil + 8 * (length payload - i) \<and> j < count")
      case False
      then have "\<not> (coil1 \<le> j \<and> j < coil1 + 8 * (length payload - (i + 1)) \<and> j < count)"
        unfolding coil1 more by auto
      then have "vs' ! j = vs1 ! j"
        unfolding IH by (rule if_not_P)
      also from False have "\<not> (coil \<le> j \<and> j < coil + 8 \<and> j < count)"
        unfolding more by auto
      then have "vs1 ! j = vs ! j"
        unfolding vs1 by (rule if_not_P)
      finally show ?thesis
        using False by (simp only: if_False)
    next
      case inside: True
      show ?thesis
      proof (cases "j < coil + 8")
        case True
        with inside have "j < coil1"
          unfolding coil1 by simp
        then have "\<not> (coil1 \<le> j \<and> j < coil1 + 8 * (length payload - (i + 1)) \<and> j < count)"
          by simp
        then have "vs' ! j = vs1 ! j"
          unfolding IH by (rule if_not_P)
        also from True inside have "vs1 ! j = (if bit (payload ! i) (j - coil) then 1 else 0)"
          unfolding vs1 by simp
        also from True inside have "j - coil = (j - coil) mod 8" and "(j - coil) div 8 = 0"
          by simp_all
        then have "(if bit (payload ! i) (j - coil) then 1 else (0::quint16)) =
            (if bit (payload ! (i + (j - coil) div 8)) ((j - coil) mod 8) then 1 else 0)"
          by simp
        finally show ?thesis
          using inside by (simp only: if_P)
      next
        case False
        with inside have c1: "coil1 = coil + 8"
          unfolding coil1 by simp
        from False have far: "8 \<le> j - coil"
          by simp
        have shift: "j - coil - 8 = j - (coil + 8)"
          by simp
        from far have idx: "(j - coil) div 8 = Suc ((j - (coil + 8)) div 8)"
          and bit: "(j - coil) mod 8 = (j - (coil + 8)) mod 8"
          unfolding shift [symmetric] by (simp_all add: le_div_geq le_mod_geq)
        from False inside have "coil1 \<le> j \<and> j < coil1 + 8 * (length payload - (i + 1)) \<and> j < count"
          unfolding c1 more by simp
        then have "vs' ! j =
            (if bit (payload ! (i + 1 + (j - coil1) div 8)) ((j - coil1) mod 8) then 1 else 0)"
          unfolding IH by (rule if_P)
        also have "\<dots> =
            (if bit (payload ! (i + (j - coil) div 8)) ((j - coil) mod 8) then 1 else 0)"
          unfolding c1 idx bit by simp
        finally show ?thesis
          using inside by (simp only: if_P)
      qed
    qed
  next
    case False
    with "1.prems"(1) have "vs' = vs"
      by (subst (asm) unpackBytes.simps) simp
    moreover from False have "length payload - i = 0"
      by simp
    ultimately show ?thesis
      by auto
  qed
qed

lemma packBits_spec:
  "currentBit \<le> 8 \<Longrightarrow>
   fst (packBits d currentBit address byte) = address + of_nat (8 - currentBit)
   \<and> (\<forall>j. bit (snd (packBits d currentBit address byte)) j =
          (if currentBit \<le> j \<and> j < 8
           then value d (unat (address + of_nat (j - currentBit))) \<noteq> 0
           else bit byte j))"
proof (induction d currentBit address byte rule: packBits.induct)
  case (1 d currentBit address byte)
  show ?case
  proof (cases "currentBit < 8")
    case True
    let ?byte = "if value d (unat address) \<noteq> 0 then set_bit currentBit byte
                 else unset_bit currentBit byte"
    from True have step: "packBits d currentBit address byte =
        packBits d (currentBit + 1) (address + 1) ?byte"
      by (subst packBits.simps) simp
    from True have le: "currentBit + 1 \<le> 8"
      by simp
    have written: "bit ?byte j = (if j = currentBit then value d (unat address) \<noteq> 0 else bit byte j)"
      for j
      using True by (simp add: bit_set_bit_iff bit_unset_bit_iff)
    from True have "8 - currentBit = Suc (8 - (currentBit + 1))"
      by simp
    then have address: "address + 1 + of_nat (8 - (currentBit + 1)) = address + of_nat (8 - currentBit)"
      by simp
    have index: "address + 1 + of_nat (j - (currentBit + 1)) = address + of_nat (j - currentBit)"
      if "currentBit + 1 \<le> j" for j
    proof -
      from that have "j - currentBit = Suc (j - (currentBit + 1))"
        by simp
      then show ?thesis
        by simp
    qed
    from "1.IH" [OF True le] have
      first: "fst (packBits d (currentBit + 1) (address + 1) ?byte)
                = address + 1 + of_nat (8 - (currentBit + 1))"
      and bits: "\<And>j. bit (snd (packBits d (currentBit + 1) (address + 1) ?byte)) j =
          (if currentBit + 1 \<le> j \<and> j < 8
           then value d (unat (address + 1 + of_nat (j - (currentBit + 1)))) \<noteq> 0
           else bit ?byte j)"
      by simp_all
    show ?thesis
    proof (intro conjI allI)
      from first address show "fst (packBits d currentBit address byte) = address + of_nat (8 - currentBit)"
        unfolding step by simp
    next
      fix j
      show "bit (snd (packBits d currentBit address byte)) j =
          (if currentBit \<le> j \<and> j < 8
           then value d (unat (address + of_nat (j - currentBit))) \<noteq> 0
           else bit byte j)"
      proof (cases "currentBit + 1 \<le> j")
        case True
        with bits [of j] index [of j] show ?thesis
          unfolding step by (simp add: written)
      next
        case False
        with bits [of j] \<open>currentBit < 8\<close> show ?thesis
          unfolding step by (cases "j = currentBit") (simp_all add: written)
      qed
    qed
  next
    case False
    with "1.prems" have "currentBit = 8"
      by simp
    then show ?thesis
      by (subst (1 2) packBits.simps) auto
  qed
qed

lemma packBits_byte:
  "bit (snd (packBits d 0 address 0)) j \<longleftrightarrow>
     j < 8 \<and> value d (unat (address + of_nat j)) \<noteq> 0"
  using packBits_spec [of 0 d address 0] by simp

lemma packBits_address: "fst (packBits d 0 address 0) = address + 8"
  using packBits_spec [of 0 d address 0] by simp

lemma packBytes_spec:
  "packBytes d byteCount i address bytes =
     bytes @ map (\<lambda>m. snd (packBits d 0 (address + 8 * of_nat m) 0))
               [0..<unat byteCount - unat i]"
proof (induction d byteCount i address bytes rule: packBytes.induct)
  case (1 d byteCount i address bytes)
  show ?case
  proof (cases "i < byteCount")
    case True
    then have less: "unat i < unat byteCount"
      by (simp add: word_less_nat_alt)
    moreover have "unat byteCount < 256"
      using unsigned_less [of byteCount, where 'a = nat] by simp
    ultimately have "unat i + 1 < 256"
      by simp
    then have "unat (i + 1) = Suc (unat i)"
      by (simp add: unat_word_ariths)
    with less have count: "unat byteCount - unat i = Suc (unat byteCount - unat (i + 1))"
      by simp
    obtain address' byte where pack: "packBits d 0 address 0 = (address', byte)"
      by (cases "packBits d 0 address 0")
    with packBits_address [of d address] have address': "address' = address + 8"
      by simp
    from True pack have "packBytes d byteCount i address bytes =
        packBytes d byteCount (i + 1) address' (bytes @ [byte])"
      by (subst packBytes.simps) simp
    also from "1.IH" [OF True pack [symmetric]] have "\<dots> =
        (bytes @ [byte]) @ map (\<lambda>m. snd (packBits d 0 (address' + 8 * of_nat m) 0))
          [0..<unat byteCount - unat (i + 1)]" .
    also have "\<dots> = bytes @ map (\<lambda>m. snd (packBits d 0 (address + 8 * of_nat m) 0))
          [0..<unat byteCount - unat i]"
      unfolding count address' using pack
      by (simp add: map_upt_Suc algebra_simps del: upt_Suc)
    finally show ?thesis .
  next
    case False
    then have "unat byteCount - unat i = 0"
      by (simp add: word_less_nat_alt)
    with False show ?thesis
      by (subst packBytes.simps) simp
  qed
qed

lemma unat_of_nat_quint8: "k < 256 \<Longrightarrow> unat (of_nat k :: quint8) = k"
  by (simp add: unat_of_nat)

lemma createWriteRequest_byteCount:
  assumes "n \<le> 256"
  shows "unat (if n mod 8 \<noteq> 0 then (of_nat (n div 8) :: quint8) + 1 else of_nat (n div 8))
    = (n + 7) div 8"
proof (cases "n mod 8 = 0")
  case True
  with assms have "n div 8 < 256"
    by simp
  then have "unat (of_nat (n div 8) :: quint8) = n div 8"
    by (rule unat_of_nat_quint8)
  moreover from True have "n div 8 = (n + 7) div 8"
    by presburger
  ultimately show ?thesis
    using True by simp
next
  case False
  with assms have "n < 256"
    by (cases "n = 256") simp_all
  then have small: "n div 8 + 1 < 256"
    by simp
  then have "unat (of_nat (n div 8) :: quint8) = n div 8"
    by (intro unat_of_nat_quint8) simp
  with small have "unat ((of_nat (n div 8) :: quint8) + 1) = n div 8 + 1"
    by (simp add: unat_word_ariths)
  moreover from False have "n div 8 + 1 = (n + 7) div 8"
    by presburger
  ultimately show ?thesis
    using False by simp
qed

subsection \<open>What the guards of a decoder establish\<close>

lemma isValid_iff:
  "isValid pduValid response fc \<longleftrightarrow>
     pduValid response \<and> \<not> isException response \<and> functionCode response = fc"
  by (simp add: isValid_def)

lemma minimumDataSize_decoded:
  assumes "\<not> isException response"
  shows "functionCode response = ReadCoils \<Longrightarrow> minimumDataSize response = 2"
    and "functionCode response = ReadDiscreteInputs \<Longrightarrow> minimumDataSize response = 2"
    and "functionCode response = ReadHoldingRegisters \<Longrightarrow> minimumDataSize response = 3"
    and "functionCode response = ReadInputRegisters \<Longrightarrow> minimumDataSize response = 3"
    and "functionCode response = WriteSingleCoil \<Longrightarrow> minimumDataSize response = 4"
    and "functionCode response = WriteSingleRegister \<Longrightarrow> minimumDataSize response = 4"
    and "functionCode response = WriteMultipleCoils \<Longrightarrow> minimumDataSize response = 4"
    and "functionCode response = WriteMultipleRegisters \<Longrightarrow> minimumDataSize response = 4"
    and "functionCode response = ReadWriteMultipleRegisters \<Longrightarrow> minimumDataSize response = 3"
  using assms by (simp_all add: minimumDataSize_def function_codes)

lemma header_in_range:
  assumes "isValid pduValid response fc" and "\<not> dataSize response < minimumDataSize response"
    and "fc = ReadCoils \<or> fc = ReadDiscreteInputs \<or> fc = ReadHoldingRegisters
         \<or> fc = ReadInputRegisters \<or> fc = ReadWriteMultipleRegisters"
  shows "byte_at (data response) 0 = Inr (data response ! 0)"
proof -
  from assms(1,3) have "2 \<le> minimumDataSize response"
    by (auto simp: isValid_iff minimumDataSize_decoded)
  with assms(2) have "0 < length (data response)"
    by (cases "data response") (simp_all add: dataSize_def)
  then show ?thesis
    by (rule byte_at_in_range)
qed

lemma fields_in_range:
  assumes "isValid pduValid response fc" and "dataSize response = minimumDataSize response"
    and "fc = WriteSingleCoil \<or> fc = WriteSingleRegister \<or> fc = WriteMultipleCoils
         \<or> fc = WriteMultipleRegisters"
  shows "decodeData response =
    Inr (word_cat (data response ! 0) (data response ! 1),
         word_cat (data response ! 2) (data response ! 3))"
proof -
  from assms(1,3) have "minimumDataSize response = 4"
    by (auto simp: isValid_iff minimumDataSize_decoded)
  with assms(2) have "length (data response) = 4"
    by (simp add: dataSize_def)
  then show ?thesis
    by (rule decodeData_four)
qed

lemma registers_in_range:
  assumes "dataSize response - 1 = uint (byteCount :: quint8)"
  shows "\<exists>vs. readRegisters (drop 1 (data response)) 0 (unat (byteCount div 2)) [] = Inr vs
           \<and> length vs = unat (byteCount div 2)"
proof -
  from assms have "int (length (data response)) = int (unat byteCount + 1)"
    unfolding uint_nat dataSize_def by linarith
  then have "length (data response) = unat byteCount + 1"
    by (simp only: of_nat_eq_iff)
  then have "length (drop 1 (data response)) = unat byteCount"
    by simp
  moreover have "2 * unat (byteCount div 2) \<le> unat byteCount"
    by (simp add: unat_div)
  ultimately have "2 * unat (byteCount div 2) \<le> length (drop 1 (data response))"
    by simp
  from readRegisters_returns [OF this, of 0 "[]"] show ?thesis
    by simp
qed

lemma returns_if_no_fault:
  assumes "\<And>e. (x :: decoded) \<noteq> Inl e"
  shows "\<exists>b du'. x = Inr (b, du')"
proof (cases x)
  case (Inl e)
  with assms [of e] show ?thesis
    by simp
next
  case (Inr res)
  then show ?thesis
    by (cases res) simp
qed

lemma word_le_1_iff: "1 \<le> (w :: quint16) \<longleftrightarrow> w \<noteq> 0"
  by (metis word_less_1 not_less)

subsection \<open>The decoders one by one\<close>

lemma processReadCoilsResponse_returns:
  "\<exists>b du'. processReadCoilsResponse pduValid response du = Inr (b, du')"
proof (cases "isValid pduValid response ReadCoils \<and> \<not> dataSize response < minimumDataSize response")
  case False
  then show ?thesis
    by (auto simp: processReadCoilsResponse_def)
next
  case True
  then have at: "byte_at (data response) 0 = Inr (data response ! 0)"
    by (intro header_in_range [of pduValid]) auto
  show ?thesis
  proof (cases du)
    case None
    with True at show ?thesis
      by (auto simp: processReadCoilsResponse_def Let_def)
  next
    case (Some d)
    obtain vs where
      "unpackBytes (data response) 1 0 (valueCount d) (replicate (valueCount d) 0) = Inr vs"
      using unpackBytes_returns by blast
    with True at Some show ?thesis
      by (auto simp: processReadCoilsResponse_def Let_def)
  qed
qed

lemma processReadCoilsResponse_no_fault: "processReadCoilsResponse pduValid response du \<noteq> Inl e"
  using processReadCoilsResponse_returns [of pduValid response du] by auto

lemma processReadCoilsResponse_rejects:
  "processReadCoilsResponse pduValid response du = Inr (False, du') \<Longrightarrow> du' = du"
  by (auto simp: processReadCoilsResponse_def Let_def split: if_splits sum.splits option.splits)

lemma processReadCoilsResponse_not_valid:
  "\<not> isValid pduValid response ReadCoils \<or> dataSize response < minimumDataSize response \<Longrightarrow>
   processReadCoilsResponse pduValid response du = Inr (False, du)"
  by (auto simp: processReadCoilsResponse_def)

lemma processReadCoilsResponse_accepts:
  assumes "processReadCoilsResponse pduValid response (Some d) = Inr (True, du')"
  shows "\<exists>d'. du' = Some d' \<and> length (values d') = valueCount d' \<and> valueCount d' = valueCount d"
proof -
  obtain vs where
    vs: "unpackBytes (data response) 1 0 (valueCount d) (replicate (valueCount d) 0) = Inr vs"
    and len: "length vs = length (replicate (valueCount d) (0::quint16))"
    using unpackBytes_returns by blast
  from assms vs have "du' = Some (setValues vs d)"
    by (auto simp: processReadCoilsResponse_def Let_def split: if_splits sum.splits)
  with len show ?thesis
    by (simp add: setValues_def)
qed

lemma processReadDiscreteInputsResponse_returns:
  "\<exists>b du'. processReadDiscreteInputsResponse pduValid response du = Inr (b, du')"
proof (cases "isValid pduValid response ReadDiscreteInputs \<and> \<not> dataSize response < minimumDataSize response")
  case False
  then show ?thesis
    by (auto simp: processReadDiscreteInputsResponse_def)
next
  case True
  then have at: "byte_at (data response) 0 = Inr (data response ! 0)"
    by (intro header_in_range [of pduValid]) auto
  show ?thesis
  proof (cases du)
    case None
    with True at show ?thesis
      by (auto simp: processReadDiscreteInputsResponse_def Let_def)
  next
    case (Some d)
    obtain vs where
      "unpackBytes (data response) 1 0 (valueCount d) (replicate (valueCount d) 0) = Inr vs"
      using unpackBytes_returns by blast
    with True at Some show ?thesis
      by (auto simp: processReadDiscreteInputsResponse_def Let_def)
  qed
qed

lemma processReadDiscreteInputsResponse_no_fault: "processReadDiscreteInputsResponse pduValid response du \<noteq> Inl e"
  using processReadDiscreteInputsResponse_returns [of pduValid response du] by auto

lemma processReadDiscreteInputsResponse_rejects:
  "processReadDiscreteInputsResponse pduValid response du = Inr (False, du') \<Longrightarrow> du' = du"
  by (auto simp: processReadDiscreteInputsResponse_def Let_def split: if_splits sum.splits option.splits)

lemma processReadDiscreteInputsResponse_not_valid:
  "\<not> isValid pduValid response ReadDiscreteInputs \<or> dataSize response < minimumDataSize response \<Longrightarrow>
   processReadDiscreteInputsResponse pduValid response du = Inr (False, du)"
  by (auto simp: processReadDiscreteInputsResponse_def)

lemma processReadDiscreteInputsResponse_accepts:
  assumes "processReadDiscreteInputsResponse pduValid response (Some d) = Inr (True, du')"
  shows "\<exists>d'. du' = Some d' \<and> length (values d') = valueCount d' \<and> valueCount d' = valueCount d"
proof -
  obtain vs where
    vs: "unpackBytes (data response) 1 0 (valueCount d) (replicate (valueCount d) 0) = Inr vs"
    and len: "length vs = length (replicate (valueCount d) (0::quint16))"
    using unpackBytes_returns by blast
  from assms vs have "du' = Some (setValues vs d)"
    by (auto simp: processReadDiscreteInputsResponse_def Let_def split: if_splits sum.splits)
  with len show ?thesis
    by (simp add: setValues_def)
qed

lemma processReadHoldingRegistersResponse_returns:
  "\<exists>b du'. processReadHoldingRegistersResponse pduValid response du = Inr (b, du')"
proof (cases "isValid pduValid response ReadHoldingRegisters \<and> \<not> dataSize response < minimumDataSize response")
  case False
  then show ?thesis
    by (auto simp: processReadHoldingRegistersResponse_def)
next
  case True
  then have at: "byte_at (data response) 0 = Inr (data response ! 0)"
    by (intro header_in_range [of pduValid]) auto
  show ?thesis
  proof (cases "dataSize response - 1 = uint (data response ! 0)")
    case False
    with True at show ?thesis
      by (auto simp: processReadHoldingRegistersResponse_def)
  next
    case size: True
    from registers_in_range [OF size] obtain vs where
      "readRegisters (drop 1 (data response)) 0 (unat (data response ! 0 div 2)) [] = Inr vs"
      by blast
    with True at size show ?thesis
      by (cases du) (auto simp: processReadHoldingRegistersResponse_def Let_def)
  qed
qed

lemma processReadHoldingRegistersResponse_no_fault: "processReadHoldingRegistersResponse pduValid response du \<noteq> Inl e"
  using processReadHoldingRegistersResponse_returns [of pduValid response du] by auto

lemma processReadHoldingRegistersResponse_rejects:
  "processReadHoldingRegistersResponse pduValid response du = Inr (False, du') \<Longrightarrow> du' = du"
  by (auto simp: processReadHoldingRegistersResponse_def Let_def split: if_splits sum.splits option.splits)

lemma processReadHoldingRegistersResponse_not_valid:
  "\<not> isValid pduValid response ReadHoldingRegisters \<or> dataSize response < minimumDataSize response \<Longrightarrow>
   processReadHoldingRegistersResponse pduValid response du = Inr (False, du)"
  by (auto simp: processReadHoldingRegistersResponse_def)

lemma processReadHoldingRegistersResponse_accepts:
  assumes "processReadHoldingRegistersResponse pduValid response (Some d) = Inr (True, du')"
  shows "\<exists>d'. du' = Some d' \<and> length (values d') = valueCount d'"
  using assms
  by (auto simp: processReadHoldingRegistersResponse_def Let_def setValues_def setValueCount_def setRegisterType_def
      split: if_splits sum.splits)

lemma processReadInputRegistersResponse_returns:
  "\<exists>b du'. processReadInputRegistersResponse pduValid response du = Inr (b, du')"
proof (cases "isValid pduValid response ReadInputRegisters \<and> \<not> dataSize response < minimumDataSize response")
  case False
  then show ?thesis
    by (auto simp: processReadInputRegistersResponse_def)
next
  case True
  then have at: "byte_at (data response) 0 = Inr (data response ! 0)"
    by (intro header_in_range [of pduValid]) auto
  show ?thesis
  proof (cases "dataSize response - 1 = uint (data response ! 0)")
    case False
    with True at show ?thesis
      by (auto simp: processReadInputRegistersResponse_def)
  next
    case size: True
    from registers_in_range [OF size] obtain vs where
      "readRegisters (drop 1 (data response)) 0 (unat (data response ! 0 div 2)) [] = Inr vs"
      by blast
    with True at size show ?thesis
      by (cases du) (auto simp: processReadInputRegistersResponse_def Let_def)
  qed
qed

lemma processReadInputRegistersResponse_no_fault: "processReadInputRegistersResponse pduValid response du \<noteq> Inl e"
  using processReadInputRegistersResponse_returns [of pduValid response du] by auto

lemma processReadInputRegistersResponse_rejects:
  "processReadInputRegistersResponse pduValid response du = Inr (False, du') \<Longrightarrow> du' = du"
  by (auto simp: processReadInputRegistersResponse_def Let_def split: if_splits sum.splits option.splits)

lemma processReadInputRegistersResponse_not_valid:
  "\<not> isValid pduValid response ReadInputRegisters \<or> dataSize response < minimumDataSize response \<Longrightarrow>
   processReadInputRegistersResponse pduValid response du = Inr (False, du)"
  by (auto simp: processReadInputRegistersResponse_def)

lemma processReadInputRegistersResponse_accepts:
  assumes "processReadInputRegistersResponse pduValid response (Some d) = Inr (True, du')"
  shows "\<exists>d'. du' = Some d' \<and> length (values d') = valueCount d'"
  using assms
  by (auto simp: processReadInputRegistersResponse_def Let_def setValues_def setValueCount_def setRegisterType_def
      split: if_splits sum.splits)

lemma processWriteSingleCoilResponse_returns:
  "\<exists>b du'. processWriteSingleCoilResponse pduValid response du = Inr (b, du')"
proof (cases "isValid pduValid response WriteSingleCoil \<and> dataSize response = minimumDataSize response")
  case False
  then show ?thesis
    by (auto simp: processWriteSingleCoilResponse_def)
next
  case True
  then have "decodeData response =
    Inr (word_cat (data response ! 0) (data response ! 1),
         word_cat (data response ! 2) (data response ! 3))"
    by (intro fields_in_range [of pduValid]) auto
  with True show ?thesis
    by (cases du) (auto simp: processWriteSingleCoilResponse_def)
qed

lemma processWriteSingleCoilResponse_no_fault: "processWriteSingleCoilResponse pduValid response du \<noteq> Inl e"
  using processWriteSingleCoilResponse_returns [of pduValid response du] by auto

lemma processWriteSingleCoilResponse_rejects:
  "processWriteSingleCoilResponse pduValid response du = Inr (False, du') \<Longrightarrow> du' = du"
  by (auto simp: processWriteSingleCoilResponse_def Let_def split: if_splits sum.splits option.splits)

lemma processWriteSingleCoilResponse_not_valid:
  "\<not> isValid pduValid response WriteSingleCoil \<or> dataSize response < minimumDataSize response \<Longrightarrow>
   processWriteSingleCoilResponse pduValid response du = Inr (False, du)"
  by (auto simp: processWriteSingleCoilResponse_def)

lemma processWriteSingleCoilResponse_accepts:
  assumes "processWriteSingleCoilResponse pduValid response (Some d) = Inr (True, du')"
  shows "\<exists>d'. du' = Some d' \<and> length (values d') = valueCount d'"
  using assms
  by (auto simp: processWriteSingleCoilResponse_def Let_def setValues_def setValueCount_def setRegisterType_def
      setStartAddress_def split: if_splits sum.splits)

lemma processWriteSingleRegisterResponse_returns:
  "\<exists>b du'. processWriteSingleRegisterResponse pduValid response du = Inr (b, du')"
proof (cases "isValid pduValid response WriteSingleRegister \<and> dataSize response = minimumDataSize response")
  case False
  then show ?thesis
    by (auto simp: processWriteSingleRegisterResponse_def)
next
  case True
  then have "decodeData response =
    Inr (word_cat (data response ! 0) (data response ! 1),
         word_cat (data response ! 2) (data response ! 3))"
    by (intro fields_in_range [of pduValid]) auto
  with True show ?thesis
    by (cases du) (auto simp: processWriteSingleRegisterResponse_def)
qed

lemma processWriteSingleRegisterResponse_no_fault: "processWriteSingleRegisterResponse pduValid response du \<noteq> Inl e"
  using processWriteSingleRegisterResponse_returns [of pduValid response du] by auto

lemma processWriteSingleRegisterResponse_rejects:
  "processWriteSingleRegisterResponse pduValid response du = Inr (False, du') \<Longrightarrow> du' = du"
  by (auto simp: processWriteSingleRegisterResponse_def Let_def split: if_splits sum.splits option.splits)

lemma processWriteSingleRegisterResponse_not_valid:
  "\<not> isValid pduValid response WriteSingleRegister \<or> dataSize response < minimumDataSize response \<Longrightarrow>
   processWriteSingleRegisterResponse pduValid response du = Inr (False, du)"
  by (auto simp: processWriteSingleRegisterResponse_def)

lemma processWriteSingleRegisterResponse_accepts:
  assumes "processWriteSingleRegisterResponse pduValid response (Some d) = Inr (True, du')"
  shows "\<exists>d'. du' = Some d' \<and> length (values d') = valueCount d'"
  using assms
  by (auto simp: processWriteSingleRegisterResponse_def Let_def setValues_def setValueCount_def setRegisterType_def
      setStartAddress_def split: if_splits sum.splits)

lemma processWriteMultipleCoilsResponse_returns:
  "\<exists>b du'. processWriteMultipleCoilsResponse pduValid response du = Inr (b, du')"
proof (cases "isValid pduValid response WriteMultipleCoils \<and> dataSize response = minimumDataSize response")
  case False
  then show ?thesis
    by (auto simp: processWriteMultipleCoilsResponse_def)
next
  case True
  then have "decodeData response =
    Inr (word_cat (data response ! 0) (data response ! 1),
         word_cat (data response ! 2) (data response ! 3))"
    by (intro fields_in_range [of pduValid]) auto
  with True show ?thesis
    by (cases du) (auto simp: processWriteMultipleCoilsResponse_def)
qed

lemma processWriteMultipleCoilsResponse_no_fault: "processWriteMultipleCoilsResponse pduValid response du \<noteq> Inl e"
  using processWriteMultipleCoilsResponse_returns [of pduValid response du] by auto

lemma processWriteMultipleCoilsResponse_rejects:
  "processWriteMultipleCoilsResponse pduValid response du = Inr (False, du') \<Longrightarrow> du' = du"
  by (auto simp: processWriteMultipleCoilsResponse_def Let_def split: if_splits sum.splits option.splits)

lemma processWriteMultipleCoilsResponse_not_valid:
  "\<not> isValid pduValid response WriteMultipleCoils \<or> dataSize response < minimumDataSize response \<Longrightarrow>
   processWriteMultipleCoilsResponse pduValid response du = Inr (False, du)"
  by (auto simp: processWriteMultipleCoilsResponse_def)

lemma processWriteMultipleCoilsResponse_accepts:
  assumes "processWriteMultipleCoilsResponse pduValid response (Some d) = Inr (True, du')"
  shows "\<exists>d'. du' = Some d' \<and> values d' = values d
           \<and> valueCount d' = unat (word_cat (data response ! 2) (data response ! 3) :: quint16)"
proof -
  from assms have "isValid pduValid response WriteMultipleCoils"
    and "dataSize response = minimumDataSize response"
    by (auto simp: processWriteMultipleCoilsResponse_def split: if_splits)
  then have "decodeData response =
    Inr (word_cat (data response ! 0) (data response ! 1),
         word_cat (data response ! 2) (data response ! 3))"
    by (intro fields_in_range [of pduValid]) auto
  with assms show ?thesis
    by (auto simp: processWriteMultipleCoilsResponse_def Let_def setValueCount_def setRegisterType_def
        setStartAddress_def split: if_splits)
qed

lemma processWriteMultipleRegistersResponse_returns:
  "\<exists>b du'. processWriteMultipleRegistersResponse pduValid response du = Inr (b, du')"
proof (cases "isValid pduValid response WriteMultipleRegisters \<and> dataSize response = minimumDataSize response")
  case False
  then show ?thesis
    by (auto simp: processWriteMultipleRegistersResponse_def)
next
  case True
  then have "decodeData response =
    Inr (word_cat (data response ! 0) (data response ! 1),
         word_cat (data response ! 2) (data response ! 3))"
    by (intro fields_in_range [of pduValid]) auto
  with True show ?thesis
    by (cases du) (auto simp: processWriteMultipleRegistersResponse_def)
qed

lemma processWriteMultipleRegistersResponse_no_fault: "processWriteMultipleRegistersResponse pduValid response du \<noteq> Inl e"
  using processWriteMultipleRegistersResponse_returns [of pduValid response du] by auto

lemma processWriteMultipleRegistersResponse_rejects:
  "processWriteMultipleRegistersResponse pduValid response du = Inr (False, du') \<Longrightarrow> du' = du"
  by (auto simp: processWriteMultipleRegistersResponse_def Let_def split: if_splits sum.splits option.splits)

lemma processWriteMultipleRegistersResponse_not_valid:
  "\<not> isValid pduValid response WriteMultipleRegisters \<or> dataSize response < minimumDataSize response \<Longrightarrow>
   processWriteMultipleRegistersResponse pduValid response du = Inr (False, du)"
  by (auto simp: processWriteMultipleRegistersResponse_def)

lemma processWriteMultipleRegistersResponse_accepts:
  assumes "processWriteMultipleRegistersResponse pduValid response (Some d) = Inr (True, du')"
  shows "\<exists>d'. du' = Some d' \<and> values d' = values d
           \<and> valueCount d' = unat (word_cat (data response ! 2) (data response ! 3) :: quint16)"
proof -
  from assms have "isValid pduValid response WriteMultipleRegisters"
    and "dataSize response = minimumDataSize response"
    by (auto simp: processWriteMultipleRegistersResponse_def split: if_splits)
  then have "decodeData response =
    Inr (word_cat (data response ! 0) (data response ! 1),
         word_cat (data response ! 2) (data response ! 3))"
    by (intro fields_in_range [of pduValid]) auto
  with assms show ?thesis
    by (auto simp: processWriteMultipleRegistersResponse_def Let_def setValueCount_def setRegisterType_def
        setStartAddress_def split: if_splits)
qed

lemma processReadWriteMultipleRegistersResponse_returns:
  "\<exists>b du'. processReadWriteMultipleRegistersResponse pduValid response du = Inr (b, du')"
proof (cases "isValid pduValid response ReadWriteMultipleRegisters \<and> \<not> dataSize response < minimumDataSize response")
  case False
  then show ?thesis
    by (auto simp: processReadWriteMultipleRegistersResponse_def)
next
  case True
  then have at: "byte_at (data response) 0 = Inr (data response ! 0)"
    by (intro header_in_range [of pduValid]) auto
  show ?thesis
  proof (cases "dataSize response - 1 = uint (data response ! 0)")
    case False
    with True at show ?thesis
      by (auto simp: processReadWriteMultipleRegistersResponse_def)
  next
    case size: True
    from registers_in_range [OF size] obtain vs where
      "readRegisters (drop 1 (data response)) 0 (unat (data response ! 0 div 2)) [] = Inr vs"
      by blast
    with True at size show ?thesis
      by (cases du) (auto simp: processReadWriteMultipleRegistersResponse_def Let_def)
  qed
qed

lemma processReadWriteMultipleRegistersResponse_no_fault: "processReadWriteMultipleRegistersResponse pduValid response du \<noteq> Inl e"
  using processReadWriteMultipleRegistersResponse_returns [of pduValid response du] by auto

lemma processReadWriteMultipleRegistersResponse_rejects:
  "processReadWriteMultipleRegistersResponse pduValid response du = Inr (False, du') \<Longrightarrow> du' = du"
  by (auto simp: processReadWriteMultipleRegistersResponse_def Let_def split: if_splits sum.splits option.splits)

lemma processReadWriteMultipleRegistersResponse_not_valid:
  "\<not> isValid pduValid response ReadWriteMultipleRegisters \<or> dataSize response < minimumDataSize response \<Longrightarrow>
   processReadWriteMultipleRegistersResponse pduValid response du = Inr (False, du)"
  by (auto simp: processReadWriteMultipleRegistersResponse_def)

lemma processReadWriteMultipleRegistersResponse_accepts:
  assumes "processReadWriteMultipleRegistersResponse pduValid response (Some d) = Inr (True, du')"
  shows "\<exists>d'. du' = Some d' \<and> length (values d') = valueCount d'"
  using assms
  by (auto simp: processReadWriteMultipleRegistersResponse_def Let_def setValues_def setValueCount_def setRegisterType_def
      split: if_splits sum.splits)

lemmas decoder_no_fault =
  processReadCoilsResponse_no_fault
  processReadDiscreteInputsResponse_no_fault
  processReadHoldingRegistersResponse_no_fault
  processReadInputRegistersResponse_no_fault
  processWriteSingleCoilResponse_no_fault
  processWriteSingleRegisterResponse_no_fault
  processWriteMultipleCoilsResponse_no_fault
  processWriteMultipleRegistersResponse_no_fault
  processReadWriteMultipleRegistersResponse_no_fault

lemmas decoder_not_valid =
  processReadCoilsResponse_not_valid processReadDiscreteInputsResponse_not_valid
  processReadHoldingRegistersResponse_not_valid processReadInputRegistersResponse_not_valid
  processWriteSingleCoilResponse_not_valid processWriteSingleRegisterResponse_not_valid
  processWriteMultipleCoilsResponse_not_valid processWriteMultipleRegistersResponse_not_valid
  processReadWriteMultipleRegistersResponse_not_valid

lemmas decoder_rejects =
  processReadCoilsResponse_rejects processReadDiscreteInputsResponse_rejects
  processReadHoldingRegistersResponse_rejects processReadInputRegistersResponse_rejects
  processWriteSingleCoilResponse_rejects processWriteSingleRegisterResponse_rejects
  processWriteMultipleCoilsResponse_rejects processWriteMultipleRegistersResponse_rejects
  processReadWriteMultipleRegistersResponse_rejects

lemma processResponse_returns:
  "\<exists>b du'. processResponse pduValid privateHook response du = Inr (b, du')"
proof (rule returns_if_no_fault)
  show "processResponse pduValid privateHook response du \<noteq> Inl e" for e
    by (simp add: processResponse_def Let_def decoder_no_fault)
qed

subsection \<open>Dispatch of function codes without a decoder\<close>

text \<open>
  C1. The claim: a response whose function code has no built-in decoder is routed to the
  extension hook, and no decoder of an unrelated function code is invoked. The switch does
  otherwise for eight codes: the labels ReadExceptionStatus, Diagnostics,
  GetCommEventCounter and GetCommEventLog fall through to the call of the Write Multiple
  Coils decoder, and ReportServerId, ReadFileRecord, WriteFileRecord and MaskWriteRegister
  to the call of the Read/Write Multiple Registers decoder, whatever the hook is, while
  the labels ReadFifoQueue and EncapsulatedInterfaceTransport do reach the hook. At the
  response with function code 0x07 and payload \<open>[0]\<close>, under a hook that accepts
  every response, the dispatch answers false and the hook's answer (true) is never asked for.
\<close>

theorem processResponse_falls_through:
  "processResponse pduValid privateHook \<lparr>functionCode = ReadExceptionStatus, data = bs\<rparr> du
     = processWriteMultipleCoilsResponse pduValid \<lparr>functionCode = ReadExceptionStatus, data = bs\<rparr> du
   \<and> processResponse pduValid privateHook \<lparr>functionCode = Diagnostics, data = bs\<rparr> du
     = processWriteMultipleCoilsResponse pduValid \<lparr>functionCode = Diagnostics, data = bs\<rparr> du
   \<and> processResponse pduValid privateHook \<lparr>functionCode = GetCommEventCounter, data = bs\<rparr> du
     = processWriteMultipleCoilsResponse pduValid \<lparr>functionCode = GetCommEventCounter, data = bs\<rparr> du
   \<and> processResponse pduValid privateHook \<lparr>functionCode = GetCommEventLog, data = bs\<rparr> du
     = processWriteMultipleCoilsResponse pduValid \<lparr>functionCode = GetCommEventLog, data = bs\<rparr> du
   \<and> processResponse pduValid privateHook \<lparr>functionCode = ReportServerId, data = bs\<rparr> du
     = processReadWriteMultipleRegistersResponse pduValid
         \<lparr>functionCode = ReportServerId, data = bs\<rparr> du
   \<and> processResponse pduValid privateHook \<lparr>functionCode = ReadFileRecord, data = bs\<rparr> du
     = processReadWriteMultipleRegistersResponse pduValid
         \<lparr>functionCode = ReadFileRecord, data = bs\<rparr> du
   \<and> processResponse pduValid privateHook \<lparr>functionCode = WriteFileRecord, data = bs\<rparr> du
     = processReadWriteMultipleRegistersResponse pduValid
         \<lparr>functionCode = WriteFileRecord, data = bs\<rparr> du
   \<and> processResponse pduValid privateHook \<lparr>functionCode = MaskWriteRegister, data = bs\<rparr> du
     = processReadWriteMultipleRegistersResponse pduValid
         \<lparr>functionCode = MaskWriteRegister, data = bs\<rparr> du
   \<and> processResponse pduValid privateHook \<lparr>functionCode = ReadFifoQueue, data = bs\<rparr> du
     = Inr (privateHook \<lparr>functionCode = ReadFifoQueue, data = bs\<rparr> du)
   \<and> processResponse pduValid privateHook
         \<lparr>functionCode = EncapsulatedInterfaceTransport, data = bs\<rparr> du
     = Inr (privateHook \<lparr>functionCode = EncapsulatedInterfaceTransport, data = bs\<rparr> du)
   \<and> processResponse pdu_isValid acceptingHook
         \<lparr>functionCode = ReadExceptionStatus, data = [0]\<rparr> None = Inr (False, None)
   \<and> acceptingHook \<lparr>functionCode = ReadExceptionStatus, data = [0]\<rparr> None = (True, None)"
  by (simp add: processResponse_def processWriteMultipleCoilsResponse_def isValid_def
      acceptingHook_def function_codes)

subsection \<open>The read-write request builder\<close>

text \<open>
  C2. The claim: \<^verbatim>\<open>createRWRequest\<close> returns a non-empty request only when both units are
  HoldingRegisters. The guard of the function refuses a pair only when neither unit is:
  with a read unit of kind Coils and a write unit of kind HoldingRegisters it builds a
  function-23 request instead of the empty PDU.
\<close>

theorem createRWRequest_accepts_coils_read_unit:
  "createRWRequest
     \<lparr>registerType = Coils, startAddress = 0, valueCount = 1, values = [0]\<rparr>
     \<lparr>registerType = HoldingRegisters, startAddress = 0, valueCount = 1, values = [7]\<rparr>
     = \<lparr>functionCode = ReadWriteMultipleRegisters, data = [0, 0, 0, 1, 0, 0, 0, 1, 2, 0, 7]\<rparr>
   \<and> createRWRequest
     \<lparr>registerType = Coils, startAddress = 0, valueCount = 1, values = [0]\<rparr>
     \<lparr>registerType = HoldingRegisters, startAddress = 0, valueCount = 1, values = [7]\<rparr>
     \<noteq> QModbusRequest_empty"
  by (simp add: createRWRequest_def QModbusRequest_def encode16_def QModbusRequest_empty_def)

subsection \<open>The decoders: safety, rejection, the length of the values\<close>

text \<open>
  C4. Whatever the bytes of the response are (truncated and malformed ones included),
  each of the nine built-in decoders returns a result and never the fault of a read
  outside the payload; and a response that fails \<^verbatim>\<open>isValid\<close> for the decoder's function
  code (structurally invalid, an exception, another function code) or is shorter than
  \<open>minimumDataSize\<close> is answered with false, the unit untouched, before any payload
  byte is read.
\<close>

theorem decoders_read_in_range:
  assumes "(fc, decode) \<in> set (builtinDecoders pduValid)"
  shows "(\<exists>b du'. decode response du = Inr (b, du'))
    \<and> (\<not> isValid pduValid response fc \<or> dataSize response < minimumDataSize response
         \<longrightarrow> decode response du = Inr (False, du))"
proof (intro conjI impI)
  from assms have "decode response du \<noteq> Inl e" for e
    unfolding builtinDecoders_def by (auto simp: decoder_no_fault)
  then show "\<exists>b du'. decode response du = Inr (b, du')"
    by (rule returns_if_no_fault)
next
  assume "\<not> isValid pduValid response fc \<or> dataSize response < minimumDataSize response"
  with assms show "decode response du = Inr (False, du)"
    unfolding builtinDecoders_def by (auto simp: decoder_not_valid)
qed

text \<open>
  C4, at a truncated input: a Read Coils response with no payload at all is below the
  minimum size and is rejected with the unit unchanged.
\<close>

theorem decoders_read_in_range_witness:
  "(ReadCoils, processReadCoilsResponse pdu_isValid) \<in> set (builtinDecoders pdu_isValid)
   \<and> dataSize \<lparr>functionCode = ReadCoils, data = []\<rparr>
       < minimumDataSize \<lparr>functionCode = ReadCoils, data = []\<rparr>
   \<and> processReadCoilsResponse pdu_isValid \<lparr>functionCode = ReadCoils, data = []\<rparr>
         (Some \<lparr>registerType = Coils, startAddress = 0, valueCount = 10, values = []\<rparr>)
       = Inr (False, Some \<lparr>registerType = Coils, startAddress = 0, valueCount = 10, values = []\<rparr>)"
  using decoders_read_in_range [of ReadCoils "processReadCoilsResponse pdu_isValid" pdu_isValid
      "\<lparr>functionCode = ReadCoils, data = []\<rparr>"
      "Some \<lparr>registerType = Coils, startAddress = 0, valueCount = 10, values = []\<rparr>"]
  by (simp add: builtinDecoders_def pdu_defs)

text \<open>
  C9. When a built-in decoder returns false, the out-parameter after the call is the
  out-parameter before the call.
\<close>

theorem rejected_response_leaves_unit:
  assumes "(fc, decode) \<in> set (builtinDecoders pduValid)"
    and "decode response du = Inr (False, du')"
  shows "du' = du"
  using assms unfolding builtinDecoders_def by (auto dest: decoder_rejects)

text \<open>
  C9, at a Write Multiple Registers acknowledgement with count 200: the decoder returns
  false and the unit keeps its two values.
\<close>

theorem rejected_response_leaves_unit_witness:
  "(WriteMultipleRegisters, processWriteMultipleRegistersResponse pdu_isValid)
      \<in> set (builtinDecoders pdu_isValid)
   \<and> processWriteMultipleRegistersResponse pdu_isValid
         \<lparr>functionCode = WriteMultipleRegisters, data = [0, 0, 0, 200]\<rparr>
         (Some \<lparr>registerType = HoldingRegisters, startAddress = 0, valueCount = 2, values = [5, 6]\<rparr>)
       = Inr (False,
           Some \<lparr>registerType = HoldingRegisters, startAddress = 0, valueCount = 2, values = [5, 6]\<rparr>)"
  using rejected_response_leaves_unit [of WriteMultipleRegisters
      "processWriteMultipleRegistersResponse pdu_isValid" pdu_isValid
      "\<lparr>functionCode = WriteMultipleRegisters, data = [0, 0, 0, 200]\<rparr>"
      "Some \<lparr>registerType = HoldingRegisters, startAddress = 0, valueCount = 2, values = [5, 6]\<rparr>"
      "Some \<lparr>registerType = HoldingRegisters, startAddress = 0, valueCount = 2, values = [5, 6]\<rparr>"]
  by (simp add: builtinDecoders_def processWriteMultipleRegistersResponse_def pdu_defs
      word_cat_eq)

text \<open>
  C3, as claimed: after every accepted decode into a non-null unit,
  \<open>length (values d) = valueCount d\<close>. The Write Multiple Coils acknowledgement
  decoder breaks it: for a unit holding the three coils that were written and an
  acknowledgement that reports five, it returns true with \<open>valueCount = 5\<close> and the
  three values still in place.
\<close>

theorem write_multiple_coils_ack_counterexample:
  "processWriteMultipleCoilsResponse pdu_isValid
      \<lparr>functionCode = WriteMultipleCoils, data = [0, 0, 0, 5]\<rparr>
      (Some \<lparr>registerType = Coils, startAddress = 0, valueCount = 3, values = [1, 0, 1]\<rparr>)
    = Inr (True, Some \<lparr>registerType = Coils, startAddress = 0, valueCount = 5, values = [1, 0, 1]\<rparr>)
   \<and> length (values \<lparr>registerType = Coils, startAddress = 0, valueCount = 5, values = [1, 0, 1]\<rparr>)
       \<noteq> valueCount \<lparr>registerType = Coils, startAddress = 0, valueCount = 5, values = [1, 0, 1]\<rparr>"
  by (simp add: processWriteMultipleCoilsResponse_def pdu_defs unit_defs word_cat_eq)

text \<open>
  C3, as amended. For the seven decoders that store values (Read Coils, Read Discrete
  Inputs, Read Holding Registers, Read Input Registers, Write Single Coil, Write Single
  Register, Read/Write Multiple Registers), an accepted response leaves a unit with
  \<open>length (values d') = valueCount d'\<close>. The two write-multiple acknowledgement
  decoders, on acceptance, leave the values of the unit as they were and set
  \<open>valueCount\<close> to the count field of the acknowledgement.
\<close>

theorem accepted_response_values_length:
  assumes "decode response (Some d) = Inr (True, du')"
  shows "(decode \<in> set (valueDecoders pduValid) \<longrightarrow>
           (\<exists>d'. du' = Some d' \<and> length (values d') = valueCount d'))
    \<and> (decode \<in> set (acknowledgementDecoders pduValid) \<longrightarrow>
           (\<exists>d'. du' = Some d' \<and> values d' = values d
              \<and> valueCount d' = unat (word_cat (data response ! 2) (data response ! 3) :: quint16)))"
proof (intro conjI impI)
  assume "decode \<in> set (valueDecoders pduValid)"
  with assms show "\<exists>d'. du' = Some d' \<and> length (values d') = valueCount d'"
    unfolding valueDecoders_def
    by (auto dest: processReadCoilsResponse_accepts processReadDiscreteInputsResponse_accepts
        processReadHoldingRegistersResponse_accepts processReadInputRegistersResponse_accepts
        processWriteSingleCoilResponse_accepts processWriteSingleRegisterResponse_accepts
        processReadWriteMultipleRegistersResponse_accepts)
next
  assume "decode \<in> set (acknowledgementDecoders pduValid)"
  with assms show "\<exists>d'. du' = Some d' \<and> values d' = values d
      \<and> valueCount d' = unat (word_cat (data response ! 2) (data response ! 3) :: quint16)"
    unfolding acknowledgementDecoders_def
    by (auto dest: processWriteMultipleCoilsResponse_accepts
        processWriteMultipleRegistersResponse_accepts)
qed

text \<open>
  C3 as amended, at a Read Holding Registers response carrying the registers 100, 200,
  300, and at the Write Multiple Coils acknowledgement above.
\<close>

theorem accepted_response_values_length_witness:
  "processReadHoldingRegistersResponse pdu_isValid
      \<lparr>functionCode = ReadHoldingRegisters, data = [0x06, 0x00, 0x64, 0x00, 0xC8, 0x01, 0x2C]\<rparr>
      (Some \<lparr>registerType = HoldingRegisters, startAddress = 0, valueCount = 3, values = []\<rparr>)
    = Inr (True, Some \<lparr>registerType = HoldingRegisters, startAddress = 0, valueCount = 3,
                         values = [100, 200, 300]\<rparr>)
   \<and> processReadHoldingRegistersResponse pdu_isValid \<in> set (valueDecoders pdu_isValid)
   \<and> processWriteMultipleCoilsResponse pdu_isValid
      \<lparr>functionCode = WriteMultipleCoils, data = [0, 0, 0, 5]\<rparr>
      (Some \<lparr>registerType = Coils, startAddress = 0, valueCount = 3, values = [1, 0, 1]\<rparr>)
    = Inr (True, Some \<lparr>registerType = Coils, startAddress = 0, valueCount = 5, values = [1, 0, 1]\<rparr>)
   \<and> processWriteMultipleCoilsResponse pdu_isValid \<in> set (acknowledgementDecoders pdu_isValid)"
  using accepted_response_values_length [of "processReadHoldingRegistersResponse pdu_isValid"
      "\<lparr>functionCode = ReadHoldingRegisters, data = [0x06, 0x00, 0x64, 0x00, 0xC8, 0x01, 0x2C]\<rparr>"
      "\<lparr>registerType = HoldingRegisters, startAddress = 0, valueCount = 3, values = []\<rparr>"
      "Some \<lparr>registerType = HoldingRegisters, startAddress = 0, valueCount = 3,
                         values = [100, 200, 300]\<rparr>" pdu_isValid]
    accepted_response_values_length [of "processWriteMultipleCoilsResponse pdu_isValid"
      "\<lparr>functionCode = WriteMultipleCoils, data = [0, 0, 0, 5]\<rparr>"
      "\<lparr>registerType = Coils, startAddress = 0, valueCount = 3, values = [1, 0, 1]\<rparr>"
      "Some \<lparr>registerType = Coils, startAddress = 0, valueCount = 5, values = [1, 0, 1]\<rparr>"
      pdu_isValid]
  by (simp add: processReadHoldingRegistersResponse_def processWriteMultipleCoilsResponse_def
      valueDecoders_def acknowledgementDecoders_def pdu_defs unit_defs readRegisters.simps
      word_cat_eq)

subsection \<open>The Write Multiple Registers acknowledgement\<close>

text \<open>
  C6. A structurally valid Write Multiple Registers acknowledgement whose payload is the
  four bytes of an address and a count has exactly the minimum size, and the decoder
  returns true exactly when the count (big-endian) lies in 1..123.
\<close>

theorem processWriteMultipleRegistersResponse_count:
  assumes "pduValid response" and "functionCode response = WriteMultipleRegisters"
    and "data response = [ah, al, ch, cl]"
  shows "dataSize response = minimumDataSize response
    \<and> (\<exists>du'. processWriteMultipleRegistersResponse pduValid response du =
          Inr (1 \<le> (word_cat ch cl :: quint16) \<and> (word_cat ch cl :: quint16) \<le> 123, du'))"
proof -
  from assms(2) have ex: "\<not> isException response"
    by (simp add: isException_def function_codes)
  with assms(1,2) have valid: "isValid pduValid response WriteMultipleRegisters"
    by (simp add: isValid_iff)
  from ex assms(2,3) have size: "dataSize response = minimumDataSize response"
    by (simp add: minimumDataSize_decoded dataSize_def)
  from assms(3) have "decodeData response = Inr (word_cat ah al, word_cat ch cl)"
    by (simp add: decodeData_four)
  with valid size show ?thesis
    by (cases du) (auto simp: processWriteMultipleRegistersResponse_def not_less not_le word_le_1_iff)
qed

text \<open>
  C6, at the boundaries: the counts 123 and 1 are accepted, the counts 0 and 124 are
  rejected.
\<close>

theorem processWriteMultipleRegistersResponse_count_witness:
  "pdu_isValid \<lparr>functionCode = WriteMultipleRegisters, data = [0, 0, 0, 123]\<rparr>
   \<and> dataSize \<lparr>functionCode = WriteMultipleRegisters, data = [0, 0, 0, 123]\<rparr>
       = minimumDataSize \<lparr>functionCode = WriteMultipleRegisters, data = [0, 0, 0, 123]\<rparr>
   \<and> processWriteMultipleRegistersResponse pdu_isValid
        \<lparr>functionCode = WriteMultipleRegisters, data = [0, 0, 0, 123]\<rparr> None = Inr (True, None)
   \<and> processWriteMultipleRegistersResponse pdu_isValid
        \<lparr>functionCode = WriteMultipleRegisters, data = [0, 0, 0, 1]\<rparr> None = Inr (True, None)
   \<and> processWriteMultipleRegistersResponse pdu_isValid
        \<lparr>functionCode = WriteMultipleRegisters, data = [0, 0, 0, 0]\<rparr> None = Inr (False, None)
   \<and> processWriteMultipleRegistersResponse pdu_isValid
        \<lparr>functionCode = WriteMultipleRegisters, data = [0, 0, 0, 124]\<rparr> None = Inr (False, None)"
  using processWriteMultipleRegistersResponse_count [of pdu_isValid
      "\<lparr>functionCode = WriteMultipleRegisters, data = [0, 0, 0, 123]\<rparr>" 0 0 0 123 None]
    processWriteMultipleRegistersResponse_count [of pdu_isValid
      "\<lparr>functionCode = WriteMultipleRegisters, data = [0, 0, 0, 1]\<rparr>" 0 0 0 1 None]
    processWriteMultipleRegistersResponse_count [of pdu_isValid
      "\<lparr>functionCode = WriteMultipleRegisters, data = [0, 0, 0, 0]\<rparr>" 0 0 0 0 None]
    processWriteMultipleRegistersResponse_count [of pdu_isValid
      "\<lparr>functionCode = WriteMultipleRegisters, data = [0, 0, 0, 124]\<rparr>" 0 0 0 124 None]
  by (simp add: processWriteMultipleRegistersResponse_def pdu_defs word_cat_eq)

subsection \<open>Coil packing and unpacking\<close>

text \<open>
  C10, as claimed: a response to Read Coils or Read Discrete Inputs whose byte-count
  header is consistent with the payload but which supplies fewer than \<open>valueCount\<close>
  bits is accepted. The payload \<open>[0]\<close>, a byte count of zero and no byte after it,
  has a consistent header and supplies no bit at all, fewer than the ten requested; it is
  shorter than the minimum data size, and both decoders return false on it by their size
  test, the unit unchanged.
\<close>

theorem coil_decoders_header_only_counterexample:
  "isValid pdu_isValid \<lparr>functionCode = ReadCoils, data = [0]\<rparr> ReadCoils
   \<and> isValid pdu_isValid \<lparr>functionCode = ReadDiscreteInputs, data = [0]\<rparr> ReadDiscreteInputs
   \<and> uint (0 :: quint8) = int (length ([] :: quint8 list))
   \<and> 8 * length ([] :: quint8 list)
       < valueCount \<lparr>registerType = Coils, startAddress = 0, valueCount = 10, values = []\<rparr>
   \<and> processReadCoilsResponse pdu_isValid \<lparr>functionCode = ReadCoils, data = [0]\<rparr>
         (Some \<lparr>registerType = Coils, startAddress = 0, valueCount = 10, values = []\<rparr>)
       = Inr (False, Some \<lparr>registerType = Coils, startAddress = 0, valueCount = 10, values = []\<rparr>)
   \<and> processReadDiscreteInputsResponse pdu_isValid
         \<lparr>functionCode = ReadDiscreteInputs, data = [0]\<rparr>
         (Some \<lparr>registerType = DiscreteInputs, startAddress = 0, valueCount = 10, values = []\<rparr>)
       = Inr (False,
           Some \<lparr>registerType = DiscreteInputs, startAddress = 0, valueCount = 10, values = []\<rparr>)"
  by (simp add: processReadCoilsResponse_def processReadDiscreteInputsResponse_def pdu_defs)

text \<open>
  C10, as amended. For the Read Coils and the Read Discrete Inputs decoder: a response
  that passes the validator and is not shorter than the minimum data size, whose
  byte-count header equals the number of bytes that follow it, and whose bytes hold fewer
  than \<open>valueCount\<close> bits, is accepted; the values stored have length
  \<open>valueCount\<close>, and every entry from index \<open>8 * length bytes\<close> on is 0.
\<close>

theorem coil_decoders_pad_with_zero:
  assumes "(fc, decode) \<in> {(ReadCoils, processReadCoilsResponse pduValid),
                            (ReadDiscreteInputs, processReadDiscreteInputsResponse pduValid)}"
    and "isValid pduValid response fc"
    and "\<not> dataSize response < minimumDataSize response"
    and "data response = byteCount # bytes"
    and "uint byteCount = int (length bytes)"
    and "8 * length bytes < valueCount d"
  shows "\<exists>d'. decode response (Some d) = Inr (True, Some d')
           \<and> length (values d') = valueCount d \<and> valueCount d' = valueCount d
           \<and> (\<forall>i. 8 * length bytes \<le> i \<and> i < valueCount d \<longrightarrow> values d' ! i = 0)"
proof -
  let ?zeros = "replicate (valueCount d) (0::quint16)"
  obtain vs where
    vs: "unpackBytes (data response) 1 0 (valueCount d) ?zeros = Inr vs"
    and len: "length vs = length ?zeros"
    using unpackBytes_returns by blast
  have pad: "vs ! i = 0" if "8 * length bytes \<le> i" and "i < valueCount d" for i
  proof -
    from that(1) assms(4) have "\<not> (0 \<le> i \<and> i < 0 + 8 * (length (data response) - 1) \<and> i < valueCount d)"
      by simp
    moreover from that(2) have "i < length ?zeros"
      by simp
    ultimately have "vs ! i = ?zeros ! i"
      using unpackBytes_spec [OF vs, of i] by (simp only: if_False le0)
    with that(2) show ?thesis
      by simp
  qed
  from assms(1) have "decode response (Some d) = Inr (True, Some (setValues vs d))"
  proof
    assume "(fc, decode) = (ReadCoils, processReadCoilsResponse pduValid)"
    with assms(2-5) vs show ?thesis
      by (simp add: processReadCoilsResponse_def byte_at_def Let_def)
  next
    assume "(fc, decode) \<in> {(ReadDiscreteInputs, processReadDiscreteInputsResponse pduValid)}"
    with assms(2-5) vs show ?thesis
      by (simp add: processReadDiscreteInputsResponse_def byte_at_def Let_def)
  qed
  with len pad show ?thesis
    by (simp add: setValues_def)
qed

text \<open>
  C10, at a request for ten coils answered with one byte \<open>0xFF\<close>: eight ones, then
  two zeros.
\<close>

theorem coil_decoders_pad_with_zero_witness:
  "isValid pdu_isValid \<lparr>functionCode = ReadCoils, data = [0x01, 0xFF]\<rparr> ReadCoils
   \<and> \<not> dataSize \<lparr>functionCode = ReadCoils, data = [0x01, 0xFF]\<rparr>
         < minimumDataSize \<lparr>functionCode = ReadCoils, data = [0x01, 0xFF]\<rparr>
   \<and> uint (0x01 :: quint8) = int (length [0xFF :: quint8])
   \<and> 8 * length [0xFF :: quint8]
       < valueCount \<lparr>registerType = Coils, startAddress = 0, valueCount = 10, values = []\<rparr>
   \<and> processReadCoilsResponse pdu_isValid \<lparr>functionCode = ReadCoils, data = [0x01, 0xFF]\<rparr>
         (Some \<lparr>registerType = Coils, startAddress = 0, valueCount = 10, values = []\<rparr>)
       = Inr (True, Some \<lparr>registerType = Coils, startAddress = 0, valueCount = 10,
                           values = [1, 1, 1, 1, 1, 1, 1, 1, 0, 0]\<rparr>)"
proof -
  have "processReadCoilsResponse pdu_isValid \<lparr>functionCode = ReadCoils, data = [0x01, 0xFF]\<rparr>
         (Some \<lparr>registerType = Coils, startAddress = 0, valueCount = 10, values = []\<rparr>)
       = Inr (True, Some \<lparr>registerType = Coils, startAddress = 0, valueCount = 10,
                           values = [1, 1, 1, 1, 1, 1, 1, 1, 0, 0]\<rparr>)"
    by code_simp
  with coil_decoders_pad_with_zero [of ReadCoils "processReadCoilsResponse pdu_isValid"
      pdu_isValid "\<lparr>functionCode = ReadCoils, data = [0x01, 0xFF]\<rparr>" "0x01" "[0xFF]"
      "\<lparr>registerType = Coils, startAddress = 0, valueCount = 10, values = []\<rparr>"]
  show ?thesis
    by (simp add: pdu_defs)
qed

text \<open>
  C7. The claim: for every N, packing N coil values with the multiple-coil builder and
  unpacking the packed bytes with the Read Coils decoder gives the same N values. In
  \<^verbatim>\<open>createWriteRequest\<close> the index into the values is the 8-bit counter \<open>address\<close>: after
  32 bytes it is 0 again, and the 33rd byte is packed from the values 0 to 7 once more.
  With 257 coils, all off except the last, the builder packs 33 zero bytes and the decoder
  gives back 257 zeros: the value of the last coil is lost.
\<close>

theorem coilRoundTrip_257_coils:
  "createWriteRequest
      \<lparr>registerType = Coils, startAddress = 0, valueCount = 257, values = replicate 256 0 @ [1]\<rparr>
    = \<lparr>functionCode = WriteMultipleCoils, data = [0, 0, 1, 1, 33] @ replicate 33 0\<rparr>
   \<and> coilRoundTrip pdu_isValid
      \<lparr>registerType = Coils, startAddress = 0, valueCount = 257, values = replicate 256 0 @ [1]\<rparr>
    = Inr (True,
        Some \<lparr>registerType = Coils, startAddress = 0, valueCount = 257, values = replicate 257 0\<rparr>)
   \<and> replicate 257 (0 :: quint16) \<noteq> replicate 256 0 @ [1]"
  by code_simp

text \<open>
  C7, the range in which the round trip does hold: for a coil unit of 2 to 256 values,
  each 0 or 1, whose echoed bytes pass the structural check, the decoder accepts the echo
  and gives the unit back unchanged. (One coil is written with Write Single Coil, which
  packs nothing; beyond 256 coils the counter above has wrapped.)
\<close>

lemma coilRoundTrip_up_to_256:
  assumes kind: "registerType d = Coils"
    and len: "length (values d) = valueCount d"
    and two: "2 \<le> valueCount d" and max: "valueCount d \<le> 256"
    and bool: "\<And>j. j < valueCount d \<Longrightarrow> values d ! j = 0 \<or> values d ! j = 1"
    and valid: "pduValid (echoAsReadCoils (createWriteRequest d))"
  shows "coilRoundTrip pduValid d = Inr (True, Some d)"
proof -
  let ?n = "valueCount d"
  define bc :: quint8
    where "bc = (if ?n mod 8 \<noteq> 0 then of_nat (?n div 8) + 1 else of_nat (?n div 8))"
  let ?bc = bc
  let ?bytes = "packBytes d ?bc 0 0 []"
  let ?response = "\<lparr>functionCode = ReadCoils, data = ?bc # ?bytes\<rparr>"
  from max have bc: "unat ?bc = (?n + 7) div 8"
    unfolding bc_def by (rule createWriteRequest_byteCount)
  have bytes: "?bytes = map (\<lambda>m. snd (packBits d 0 (8 * of_nat m) 0)) [0..<unat ?bc]"
    by (simp add: packBytes_spec)
  then have bytes_len: "length ?bytes = unat ?bc"
    by simp
  from kind two have "createWriteRequest d =
      QModbusRequest WriteMultipleCoils
        (encode16 (startAddress d) @ encode16 (of_nat ?n) @ [?bc] @ ?bytes)"
    unfolding bc_def by (simp add: createWriteRequest_def Let_def)
  then have echo: "echoAsReadCoils (createWriteRequest d) = ?response"
    by (simp add: echoAsReadCoils_def QModbusRequest_def encode16_def)
  from valid have ok: "isValid pduValid ?response ReadCoils"
    unfolding echo by (simp add: isValid_iff isException_def function_codes)
  from two bc bytes_len have "2 \<le> length (data ?response)"
    by simp
  then have "\<not> dataSize ?response < 2"
    unfolding dataSize_def by linarith
  moreover have "minimumDataSize ?response = 2"
    by (simp add: minimumDataSize_def isException_def function_codes)
  ultimately have size: "\<not> dataSize ?response < minimumDataSize ?response"
    by simp
  have header: "int (length (?bc # ?bytes)) - 1 = uint ?bc"
    unfolding uint_nat using bytes_len by simp
  obtain vs where vs: "unpackBytes (?bc # ?bytes) 1 0 ?n (replicate ?n 0) = Inr vs"
    and vs_len: "length vs = length (replicate ?n (0::quint16))"
    using unpackBytes_returns by blast
  have "vs ! j = values d ! j" if j: "j < ?n" for j
  proof -
    from bc have enough: "?n \<le> 8 * unat ?bc"
      by simp
    with j bytes_len have inside: "0 \<le> j \<and> j < 0 + 8 * (length (?bc # ?bytes) - 1) \<and> j < ?n"
      by simp
    from j enough have byte: "j div 8 < unat ?bc"
      by simp
    from j max have small: "j < 256"
      by simp
    have "(8 :: quint8) * of_nat (j div 8) + of_nat (j mod 8) = of_nat (8 * (j div 8) + j mod 8)"
      by (simp only: of_nat_add of_nat_mult of_nat_numeral)
    also have "8 * (j div 8) + j mod 8 = j"
      by simp
    finally have "unat ((8 :: quint8) * of_nat (j div 8) + of_nat (j mod 8)) = j"
      using small by (simp only: unat_of_nat_quint8)
    with byte have packed: "bit (?bytes ! (j div 8)) (j mod 8) \<longleftrightarrow> value d j \<noteq> 0"
      unfolding bytes by (simp add: packBits_byte)
    from unpackBytes_spec [OF vs _ _, of j] j
    have "vs ! j =
        (if 0 \<le> j \<and> j < 0 + 8 * (length (?bc # ?bytes) - 1) \<and> j < ?n
         then (if bit ((?bc # ?bytes) ! (1 + (j - 0) div 8)) ((j - 0) mod 8) then 1 else 0)
         else replicate ?n 0 ! j)"
      by simp
    with inside have "vs ! j = (if bit ((?bc # ?bytes) ! (1 + (j - 0) div 8)) ((j - 0) mod 8) then 1 else 0)"
      by (simp only: if_P)
    then have "vs ! j = (if bit (?bytes ! (j div 8)) (j mod 8) then 1 else 0)"
      by simp
    with packed have "vs ! j = (if value d j \<noteq> 0 then 1 else 0)"
      by simp
    with j len bool [OF j] show ?thesis
      by (auto simp: value_def)
  qed
  with vs_len len have "vs = values d"
    by (intro nth_equalityI) simp_all
  with len have "setValues vs d = d"
    by (simp add: setValues_def)
  with ok size header vs bytes_len have
    "processReadCoilsResponse pduValid ?response (Some d) = Inr (True, Some d)"
    by (simp add: processReadCoilsResponse_def byte_at_def Let_def)
  then show ?thesis
    by (simp add: coilRoundTrip_def echo)
qed

text \<open>The round trip of ten coils: the packed bytes are \<open>0x8D 0x03\<close>.\<close>

theorem coilRoundTrip_up_to_256_witness:
  "registerType \<lparr>registerType = Coils, startAddress = 5, valueCount = 10,
                  values = [1, 0, 1, 1, 0, 0, 0, 1, 1, 1]\<rparr> = Coils
   \<and> createWriteRequest \<lparr>registerType = Coils, startAddress = 5, valueCount = 10,
                           values = [1, 0, 1, 1, 0, 0, 0, 1, 1, 1]\<rparr>
       = \<lparr>functionCode = WriteMultipleCoils, data = [0, 5, 0, 10, 2, 0x8D, 0x03]\<rparr>
   \<and> pdu_isValid \<lparr>functionCode = ReadCoils, data = [2, 0x8D, 0x03]\<rparr>
   \<and> coilRoundTrip pdu_isValid
        \<lparr>registerType = Coils, startAddress = 5, valueCount = 10,
           values = [1, 0, 1, 1, 0, 0, 0, 1, 1, 1]\<rparr>
       = Inr (True, Some \<lparr>registerType = Coils, startAddress = 5, valueCount = 10,
                           values = [1, 0, 1, 1, 0, 0, 0, 1, 1, 1]\<rparr>)"
proof -
  let ?d = "\<lparr>registerType = Coils, startAddress = 5, valueCount = 10,
              values = [1, 0, 1, 1, 0, 0, 0, 1, 1, 1 :: quint16]\<rparr>"
  have request: "createWriteRequest ?d
      = \<lparr>functionCode = WriteMultipleCoils, data = [0, 5, 0, 10, 2, 0x8D, 0x03]\<rparr>"
    by code_simp
  then have valid: "pdu_isValid (echoAsReadCoils (createWriteRequest ?d))"
    by (simp add: echoAsReadCoils_def pdu_isValid_def function_codes)
  have bool: "values ?d ! j = 0 \<or> values ?d ! j = 1" if "j < valueCount ?d" for j
  proof -
    from that have "j \<in> {0, 1, 2, 3, 4, 5, 6, 7, 8, 9}"
      by auto
    then show ?thesis
      by auto
  qed
  from coilRoundTrip_up_to_256 [of ?d pdu_isValid, OF _ _ _ _ bool valid] request
  show ?thesis
    by (simp add: pdu_isValid_def function_codes)
qed

subsection \<open>The completion step\<close>

text \<open>
  C8. For a response that is not an exception and a pending request whose reply is of kind
  Raw, the completion step makes exactly two calls on the reply, in this order: it
  attaches the raw response and it marks the reply finished. The outcome is the same for
  every structural check, every hook, every payload and every data unit of the queue
  element, so no decoder takes part in it.
\<close>

theorem processQueueElement_raw_reply:
  assumes "\<not> isException pdu" and "replyType (reply element) = Raw"
  shows "processQueueElement pduValid privateHook pdu element =
    Inr ((reply element)\<lparr>calls := calls (reply element) @ [SetRawResult pdu, SetFinished True]\<rparr>)"
  using assms by (simp add: processQueueElement_def setRawResult_def setFinished_def)

theorem processQueueElement_raw_reply_witness:
  "\<not> isException \<lparr>functionCode = ReadCoils, data = []\<rparr>
   \<and> replyType (reply \<lparr>reply = \<lparr>replyType = Raw, calls = []\<rparr>,
        unit = \<lparr>registerType = Coils, startAddress = 0, valueCount = 8, values = []\<rparr>\<rparr>) = Raw
   \<and> processReadCoilsResponse pdu_isValid \<lparr>functionCode = ReadCoils, data = []\<rparr> None
        = Inr (False, None)
   \<and> processQueueElement pdu_isValid processPrivateResponse
        \<lparr>functionCode = ReadCoils, data = []\<rparr>
        \<lparr>reply = \<lparr>replyType = Raw, calls = []\<rparr>,
         unit = \<lparr>registerType = Coils, startAddress = 0, valueCount = 8, values = []\<rparr>\<rparr>
      = Inr \<lparr>replyType = Raw,
             calls = [SetRawResult \<lparr>functionCode = ReadCoils, data = []\<rparr>, SetFinished True]\<rparr>"
  using processQueueElement_raw_reply [of "\<lparr>functionCode = ReadCoils, data = []\<rparr>"
      "\<lparr>reply = \<lparr>replyType = Raw, calls = []\<rparr>,
        unit = \<lparr>registerType = Coils, startAddress = 0, valueCount = 8, values = []\<rparr>\<rparr>"
      pdu_isValid processPrivateResponse]
  by (simp add: isException_def processReadCoilsResponse_def isValid_def pdu_isValid_def
      dataSize_def minimumDataSize_def function_codes)

text \<open>
  C5. For every pending request and every response, the first call the completion step
  makes on the reply attaches the raw response, and the step always completes; when the
  response is an exception, the only other call sets the error ProtocolError. The
  outcome for an exception is the same for every structural check, every hook, every
  reply kind and every data unit of the queue element, so no decoder takes part in it.
\<close>

theorem processQueueElement_exception:
  "(\<exists>rest. processQueueElement pduValid privateHook pdu element =
      Inr ((reply element)\<lparr>calls := calls (reply element) @ SetRawResult pdu # rest\<rparr>))
   \<and> (isException pdu \<longrightarrow>
        processQueueElement pduValid privateHook pdu element =
          Inr ((reply element)\<lparr>calls := calls (reply element) @
            [SetRawResult pdu, SetError ProtocolError ''Modbus Exception Response.'']\<rparr>))"
proof (intro conjI impI)
  obtain ok du where
    res: "processResponse pduValid privateHook pdu (Some (unit element)) = Inr (ok, du)"
    using processResponse_returns by blast
  let ?done = "\<lambda>rest. Inr ((reply element)\<lparr>calls := calls (reply element) @ SetRawResult pdu # rest\<rparr>)"
  have "processQueueElement pduValid privateHook pdu element =
      ?done (if isException pdu then [SetError ProtocolError ''Modbus Exception Response.'']
             else if replyType (reply element) = Raw then [SetFinished True]
             else if \<not> ok then [SetError UnknownError ''An invalid response has been received.'']
             else [SetResult (case du of None \<Rightarrow> unit element | Some u' \<Rightarrow> u'), SetFinished True])"
    using res
    by (simp add: processQueueElement_def setRawResult_def setError_def setFinished_def
        setResult_def Let_def)
  then show "\<exists>rest. processQueueElement pduValid privateHook pdu element = ?done rest"
    by (rule exI)
next
  assume "isException pdu"
  then show "processQueueElement pduValid privateHook pdu element =
      Inr ((reply element)\<lparr>calls := calls (reply element) @
        [SetRawResult pdu, SetError ProtocolError ''Modbus Exception Response.'']\<rparr>)"
    by (simp add: processQueueElement_def setRawResult_def setError_def)
qed

text \<open>
  C5, at the exception response 0x81 with exception code 2 to a pending Read Coils
  request.
\<close>

theorem processQueueElement_exception_witness:
  "isException \<lparr>functionCode = 0x81, data = [0x02]\<rparr>
   \<and> processQueueElement pdu_isValid processPrivateResponse
        \<lparr>functionCode = 0x81, data = [0x02]\<rparr>
        \<lparr>reply = \<lparr>replyType = Common, calls = []\<rparr>,
         unit = \<lparr>registerType = Coils, startAddress = 0, valueCount = 10, values = []\<rparr>\<rparr>
      = Inr \<lparr>replyType = Common,
             calls = [SetRawResult \<lparr>functionCode = 0x81, data = [0x02]\<rparr>,
                      SetError ProtocolError ''Modbus Exception Response.'']\<rparr>"
  using processQueueElement_exception [of pdu_isValid processPrivateResponse
      "\<lparr>functionCode = 0x81, data = [0x02]\<rparr>"
      "\<lparr>reply = \<lparr>replyType = Common, calls = []\<rparr>,
        unit = \<lparr>registerType = Coils, startAddress = 0, valueCount = 10, values = []\<rparr>\<rparr>"]
  by (simp add: isException_def)

end
